theory Spec2Isabelle
  imports Complex_Main "HOL-Library.Sublist"
begin

text \<open>
  A shallow embedding of the action parser of UI-TARS
  (\<^verbatim>\<open>packages/ui-tars/action-parser/src/actionParser.ts\<close>): the functions
  \<^verbatim>\<open>smartResizeForV15\<close>, \<^verbatim>\<open>parseAction\<close>, \<^verbatim>\<open>parseActionVlm\<close> and \<^verbatim>\<open>actionParser\<close>, over models
  of the JavaScript strings, regular expressions, numbers and plain objects they use,
  followed by the properties of the parser that its specification states.
\<close>

section \<open>JavaScript strings\<close>

text \<open>
  A JavaScript string is a sequence of UTF-16 code units.  A code unit is modelled by
  its number, so that the full-width colon of \<^verbatim>\<open>Action[:\<dots>]\<close> (code unit 0xFF1A) is a
  character like any other.  \<open>str\<close> turns an ASCII literal into such a string.
\<close>

type_synonym jschar = nat
type_synonym jsstring = "jschar list"

definition str :: "string \<Rightarrow> jsstring" where
  "str cs = map of_char cs"

definition fullwidthColon :: jschar where
  "fullwidthColon = 65306"

text \<open>The WhiteSpace and LineTerminator code units of ECMAScript: what \<^verbatim>\<open>trim\<close> removes
  and what \<^verbatim>\<open>\s\<close> matches.\<close>

definition isLineTerminator :: "jschar \<Rightarrow> bool" where
  "isLineTerminator c = (c = 10 \<or> c = 13 \<or> c = 8232 \<or> c = 8233)"

definition isWhiteSpace :: "jschar \<Rightarrow> bool" where
  "isWhiteSpace c =
     (c = 9 \<or> c = 10 \<or> c = 11 \<or> c = 12 \<or> c = 13 \<or> c = 32 \<or> c = 160 \<or> c = 5760 \<or>
      (8192 \<le> c \<and> c \<le> 8202) \<or> c = 8232 \<or> c = 8233 \<or> c = 8239 \<or> c = 8287 \<or>
      c = 12288 \<or> c = 65279)"

definition isDigit :: "jschar \<Rightarrow> bool" where
  "isDigit c = (48 \<le> c \<and> c \<le> 57)"

definition isWordChar :: "jschar \<Rightarrow> bool" where
  "isWordChar c = ((97 \<le> c \<and> c \<le> 122) \<or> (65 \<le> c \<and> c \<le> 90) \<or> isDigit c \<or> c = 95)"

definition trimStart :: "jsstring \<Rightarrow> jsstring" where
  "trimStart s = dropWhile isWhiteSpace s"

definition trimEnd :: "jsstring \<Rightarrow> jsstring" where
  "trimEnd s = rev (dropWhile isWhiteSpace (rev s))"

definition trim :: "jsstring \<Rightarrow> jsstring" where
  "trim s = trimEnd (trimStart s)"

definition startsWith :: "jsstring \<Rightarrow> jsstring \<Rightarrow> bool" where
  "startsWith s p = (take (length p) s = p)"

fun includesStr :: "jsstring \<Rightarrow> jsstring \<Rightarrow> bool" where
  "includesStr [] p = (p = [])"
| "includesStr (c # cs) p = (startsWith (c # cs) p \<or> includesStr cs p)"

text \<open>\<^verbatim>\<open>s.indexOf(c)\<close> for a one-character needle; \<open>None\<close> stands for -1.\<close>

fun indexOf :: "jsstring \<Rightarrow> jschar \<Rightarrow> nat option" where
  "indexOf [] a = None"
| "indexOf (c # cs) a = (if c = a then Some 0 else map_option Suc (indexOf cs a))"

text \<open>\<^verbatim>\<open>s.split(',')\<close>: splitting at a one-character string separator.\<close>

fun splitChar :: "jschar \<Rightarrow> jsstring \<Rightarrow> jsstring list" where
  "splitChar a [] = [[]]"
| "splitChar a (c # cs) =
     (if c = a then [] # splitChar a cs
      else (case splitChar a cs of [] \<Rightarrow> [[c]] | p # ps \<Rightarrow> (c # p) # ps))"

section \<open>Regular expressions\<close>

text \<open>
  The regular expressions of the source are values of \<open>regex\<close>, and matching follows the
  backtracking semantics of the ECMAScript specification: a matcher takes the current
  state and a continuation, and the first alternative whose continuation succeeds wins.
  A state is the text behind the current position (reversed), the text after it, and
  the captures made so far.
\<close>

datatype cset = CChar jschar | CSpace | CNotSpace | CWord | CDigit

datatype regex =
    Chr jschar
  | Dot
  | Cls bool "cset list"
  | Empty
  | Seq regex regex
  | Alt regex regex
  | Rep nat "nat option" bool regex
  | Grp nat regex
  | Ahead regex
  | NotBehind "jsstring list"
  | Bol
  | Eol

record mstate =
  behind :: jsstring
  rest :: jsstring
  captures :: "(nat \<times> jsstring) list"

type_synonym mcont = "mstate \<Rightarrow> mstate option"

text \<open>A literal piece of a pattern.\<close>

definition Lits :: "jsstring \<Rightarrow> regex" where
  "Lits s = foldr (\<lambda>c r. Seq (Chr c) r) s Empty"

text \<open>Quantifiers.  The flag is \<open>True\<close> for the greedy forms.\<close>

abbreviation Star :: "regex \<Rightarrow> regex" where "Star r \<equiv> Rep 0 None True r"
abbreviation Plus :: "regex \<Rightarrow> regex" where "Plus r \<equiv> Rep 1 None True r"
abbreviation Opt :: "regex \<Rightarrow> regex" where "Opt r \<equiv> Rep 0 (Some 1) True r"
abbreviation LazyStar :: "regex \<Rightarrow> regex" where "LazyStar r \<equiv> Rep 0 None False r"
abbreviation LazyPlus :: "regex \<Rightarrow> regex" where "LazyPlus r \<equiv> Rep 1 None False r"

text \<open>
  Canonicalisation under the \<^verbatim>\<open>i\<close> flag.  Every pattern character of the source is
  ASCII, and ECMAScript never lets a code unit above 127 canonicalise to one below 128,
  so only the ASCII letters have case variants that matter.
\<close>

definition variants :: "bool \<Rightarrow> jschar \<Rightarrow> jschar list" where
  "variants ic c =
     (if ic \<and> 97 \<le> c \<and> c \<le> 122 then [c, c - 32]
      else if ic \<and> 65 \<le> c \<and> c \<le> 90 then [c, c + 32]
      else [c])"

fun csetMember :: "bool \<Rightarrow> jschar \<Rightarrow> cset \<Rightarrow> bool" where
  "csetMember ic c (CChar a) = (a \<in> set (variants ic c))"
| "csetMember ic c CSpace = isWhiteSpace c"
| "csetMember ic c CNotSpace = (\<not> isWhiteSpace c)"
| "csetMember ic c CWord = isWordChar c"
| "csetMember ic c CDigit = isDigit c"

definition advance :: "mstate \<Rightarrow> mstate" where
  "advance x = (case rest x of [] \<Rightarrow> x | d # ds \<Rightarrow> x\<lparr>behind := d # behind x, rest := ds\<rparr>)"

definition oneChar :: "(jschar \<Rightarrow> bool) \<Rightarrow> mstate \<Rightarrow> mcont \<Rightarrow> mstate option" where
  "oneChar P x c = (case rest x of [] \<Rightarrow> None | d # ds \<Rightarrow> if P d then c (advance x) else None)"

primrec groupsOf :: "regex \<Rightarrow> nat list" where
  "groupsOf (Chr a) = []"
| "groupsOf Dot = []"
| "groupsOf (Cls neg items) = []"
| "groupsOf Empty = []"
| "groupsOf (Seq r1 r2) = groupsOf r1 @ groupsOf r2"
| "groupsOf (Alt r1 r2) = groupsOf r1 @ groupsOf r2"
| "groupsOf (Rep mn mx greedy r) = groupsOf r"
| "groupsOf (Grp n r) = n # groupsOf r"
| "groupsOf (Ahead r) = groupsOf r"
| "groupsOf (NotBehind ps) = []"
| "groupsOf Bol = []"
| "groupsOf Eol = []"

definition clearGroups :: "nat list \<Rightarrow> mstate \<Rightarrow> mstate" where
  "clearGroups gs x = x\<lparr>captures := filter (\<lambda>(n, v). n \<notin> set gs) (captures x)\<rparr>"

definition setGroup :: "nat \<Rightarrow> mstate \<Rightarrow> mstate \<Rightarrow> mstate" where
  "setGroup n x y =
     y\<lparr>captures := (n, take (length (rest x) - length (rest y)) (rest x))
                     # filter (\<lambda>(m, v). m \<noteq> n) (captures y)\<rparr>"

text \<open>
  RepeatMatcher of the ECMAScript specification.  An iteration that consumes nothing
  once the minimum is reached is rejected, so at most \<open>mn + length (rest x)\<close> iterations
  can follow one another; the first argument bounds the depth by that number.  A larger
  bound never changes a result (lemma \<open>matcherK_matcher\<close> below).
\<close>

primrec repeatMatcher ::
  "nat \<Rightarrow> (mstate \<Rightarrow> mcont \<Rightarrow> mstate option) \<Rightarrow> nat list \<Rightarrow> nat \<Rightarrow> nat option \<Rightarrow> bool
     \<Rightarrow> mstate \<Rightarrow> mcont \<Rightarrow> mstate option" where
  "repeatMatcher 0 m gs mn mx greedy x c = None"
| "repeatMatcher (Suc fuel) m gs mn mx greedy x c =
     (if mx = Some 0 then c x
      else
        let d = (\<lambda>y. if mn = 0 \<and> length (rest y) = length (rest x) then None
                     else repeatMatcher fuel m gs (mn - 1) (map_option (\<lambda>k. k - 1) mx) greedy y c);
            xr = clearGroups gs x
        in if mn \<noteq> 0 then m xr d
           else if \<not> greedy then (case c x of Some z \<Rightarrow> Some z | None \<Rightarrow> m xr d)
           else (case m xr d of Some z \<Rightarrow> Some z | None \<Rightarrow> c x))"

primrec matcher :: "bool \<Rightarrow> regex \<Rightarrow> mstate \<Rightarrow> mcont \<Rightarrow> mstate option" where
  "matcher ic (Chr a) x c = oneChar (\<lambda>d. a \<in> set (variants ic d)) x c"
| "matcher ic Dot x c = oneChar (\<lambda>d. \<not> isLineTerminator d) x c"
| "matcher ic (Cls neg items) x c = oneChar (\<lambda>d. neg \<noteq> (\<exists>i \<in> set items. csetMember ic d i)) x c"
| "matcher ic Empty x c = c x"
| "matcher ic (Seq r1 r2) x c = matcher ic r1 x (\<lambda>y. matcher ic r2 y c)"
| "matcher ic (Alt r1 r2) x c =
     (case matcher ic r1 x c of Some z \<Rightarrow> Some z | None \<Rightarrow> matcher ic r2 x c)"
| "matcher ic (Rep mn mx greedy r) x c =
     repeatMatcher (Suc (mn + length (rest x))) (matcher ic r) (groupsOf r) mn mx greedy x c"
| "matcher ic (Grp n r) x c = matcher ic r x (\<lambda>y. c (setGroup n x y))"
| "matcher ic (Ahead r) x c =
     (case matcher ic r x Some of
        None \<Rightarrow> None
      | Some y \<Rightarrow> c (x\<lparr>captures := captures y\<rparr>))"
| "matcher ic (NotBehind ps) x c =
     (if \<exists>p \<in> set ps. startsWith (behind x) (rev p) then None else c x)"
| "matcher ic Bol x c = (if behind x = [] then c x else None)"
| "matcher ic Eol x c = (if rest x = [] then c x else None)"

text \<open>One attempt at a fixed position, as \<^verbatim>\<open>RegExpBuiltinExec\<close> makes it.\<close>

definition matchAt :: "bool \<Rightarrow> regex \<Rightarrow> jsstring \<Rightarrow> jsstring \<Rightarrow> mstate option" where
  "matchAt ic r pre s = matcher ic r \<lparr>behind = pre, rest = s, captures = []\<rparr> Some"

text \<open>
  \<^verbatim>\<open>s.match(r)\<close> for a pattern without the \<^verbatim>\<open>g\<close> flag: the leftmost position at which
  the pattern matches.  The result holds the text behind the match (reversed) and the
  final state.
\<close>

fun search :: "bool \<Rightarrow> regex \<Rightarrow> jsstring \<Rightarrow> jsstring \<Rightarrow> (jsstring \<times> mstate) option" where
  "search ic r pre [] = map_option (Pair pre) (matchAt ic r pre [])"
| "search ic r pre (c # cs) =
     (case matchAt ic r pre (c # cs) of
        Some y \<Rightarrow> Some (pre, y)
      | None \<Rightarrow> search ic r (c # pre) cs)"

definition matchRegex :: "bool \<Rightarrow> regex \<Rightarrow> jsstring \<Rightarrow> (nat \<times> jsstring) list option" where
  "matchRegex ic r s = map_option (\<lambda>(pre, y). captures y) (search ic r [] s)"

text \<open>Capture \<open>n\<close> of a successful match; a group that took no part is \<open>None\<close>.\<close>

definition capture :: "nat \<Rightarrow> (nat \<times> jsstring) list \<Rightarrow> jsstring option" where
  "capture n caps = map_of caps n"

text \<open>
  \<^verbatim>\<open>s.replace(r, t)\<close> for a pattern with the \<^verbatim>\<open>g\<close> flag and a replacement without
  \<^verbatim>\<open>$\<close>: every match, found from left to right, is replaced by \<open>t\<close>; after an empty
  match the search moves on by one code unit.
\<close>

fun replaceAll :: "bool \<Rightarrow> regex \<Rightarrow> jsstring \<Rightarrow> jsstring \<Rightarrow> jsstring \<Rightarrow> jsstring" where
  "replaceAll ic r t pre s =
     (case matchAt ic r pre s of
        None \<Rightarrow> (case s of [] \<Rightarrow> [] | c # cs \<Rightarrow> c # replaceAll ic r t (c # pre) cs)
      | Some y \<Rightarrow>
          if length (rest y) < length s then t @ replaceAll ic r t (behind y) (rest y)
          else t @ (case s of [] \<Rightarrow> [] | c # cs \<Rightarrow> c # replaceAll ic r t (c # pre) cs))"

definition replace :: "bool \<Rightarrow> regex \<Rightarrow> jsstring \<Rightarrow> jsstring \<Rightarrow> jsstring" where
  "replace ic r t s = replaceAll ic r t [] s"

text \<open>\<^verbatim>\<open>s.match(r)\<close> for a pattern with the \<^verbatim>\<open>g\<close> flag: the matched texts, in order
  (the empty list stands for \<^verbatim>\<open>null\<close>, which the source turns into \<^verbatim>\<open>[]\<close>).\<close>

fun matchAll :: "bool \<Rightarrow> regex \<Rightarrow> jsstring \<Rightarrow> jsstring \<Rightarrow> jsstring list" where
  "matchAll ic r pre s =
     (case matchAt ic r pre s of
        None \<Rightarrow> (case s of [] \<Rightarrow> [] | c # cs \<Rightarrow> matchAll ic r (c # pre) cs)
      | Some y \<Rightarrow>
          if length (rest y) < length s
          then take (length s - length (rest y)) s # matchAll ic r (behind y) (rest y)
          else [] # (case s of [] \<Rightarrow> [] | c # cs \<Rightarrow> matchAll ic r (c # pre) cs))"

text \<open>
  \<^verbatim>\<open>s.split(r)\<close> for a pattern without groups, after the algorithm of
  \<^verbatim>\<open>RegExp.prototype[@@split]\<close>: \<open>acc\<close> is the piece collected since the last
  separator (reversed), \<open>pre\<close> the whole text behind the current position (reversed).
  A match that ends where the current piece starts is skipped.
\<close>

fun splitLoop :: "bool \<Rightarrow> regex \<Rightarrow> jsstring \<Rightarrow> jsstring \<Rightarrow> jsstring \<Rightarrow> jsstring list" where
  "splitLoop ic r acc pre [] = [rev acc]"
| "splitLoop ic r acc pre (c # cs) =
     (case matchAt ic r pre (c # cs) of
        None \<Rightarrow> splitLoop ic r (c # acc) (c # pre) cs
      | Some y \<Rightarrow>
          if length (rest y) < length (c # cs)
          then rev acc # splitLoop ic r [] (behind y) (rest y)
          else if acc = [] then splitLoop ic r (c # acc) (c # pre) cs
          else rev acc # splitLoop ic r [c] (c # pre) cs)"

definition splitRegex :: "bool \<Rightarrow> regex \<Rightarrow> jsstring \<Rightarrow> jsstring list" where
  "splitRegex ic r s =
     (if s = [] then (case matchAt ic r [] [] of None \<Rightarrow> [[]] | Some y \<Rightarrow> [])
      else splitLoop ic r [] [] s)"

text \<open>A sequence of pattern pieces, and single characters of a pattern.\<close>

definition Seqs :: "regex list \<Rightarrow> regex" where
  "Seqs rs = foldr Seq rs Empty"

definition ch :: "char \<Rightarrow> jschar" where
  "ch c = of_char c"

definition apostrophe :: jschar where "apostrophe = 39"
definition dquote :: jschar where "dquote = 34"
definition backslash :: jschar where "backslash = 92"
definition newline :: jschar where "newline = 10"

section \<open>JavaScript numbers\<close>

text \<open>
  A number is a real, an infinity or NaN.  The special values and their arithmetic
  are those of IEEE 754 as ECMAScript prescribes them; a finite value is an exact real,
  so the rounding of binary64 is not part of the model, and neither is the sign of
  zero (a zero divisor counts as \<open>+0\<close>).
\<close>

datatype jsnum = Fin real | PInf | NInf | NaN

fun jsAdd :: "jsnum \<Rightarrow> jsnum \<Rightarrow> jsnum" where
  "jsAdd NaN b = NaN"
| "jsAdd a NaN = NaN"
| "jsAdd (Fin a) (Fin b) = Fin (a + b)"
| "jsAdd PInf NInf = NaN"
| "jsAdd NInf PInf = NaN"
| "jsAdd PInf b = PInf"
| "jsAdd NInf b = NInf"
| "jsAdd (Fin a) b = b"

definition jsNeg :: "jsnum \<Rightarrow> jsnum" where
  "jsNeg a = (case a of Fin x \<Rightarrow> Fin (- x) | PInf \<Rightarrow> NInf | NInf \<Rightarrow> PInf | NaN \<Rightarrow> NaN)"

fun jsMul :: "jsnum \<Rightarrow> jsnum \<Rightarrow> jsnum" where
  "jsMul NaN b = NaN"
| "jsMul a NaN = NaN"
| "jsMul (Fin a) (Fin b) = Fin (a * b)"
| "jsMul (Fin a) b = (if a = 0 then NaN else if 0 < a then b else jsNeg b)"
| "jsMul a (Fin b) = (if b = 0 then NaN else if 0 < b then a else jsNeg a)"
| "jsMul PInf b = b"
| "jsMul NInf b = jsNeg b"

fun jsDiv :: "jsnum \<Rightarrow> jsnum \<Rightarrow> jsnum" where
  "jsDiv NaN b = NaN"
| "jsDiv a NaN = NaN"
| "jsDiv (Fin a) (Fin b) =
     (if b \<noteq> 0 then Fin (a / b) else if a = 0 then NaN else if 0 < a then PInf else NInf)"
| "jsDiv (Fin a) b = Fin 0"
| "jsDiv a (Fin b) = (if 0 \<le> b then a else jsNeg a)"
| "jsDiv a b = NaN"

fun jsLess :: "jsnum \<Rightarrow> jsnum \<Rightarrow> bool" where
  "jsLess NaN b = False"
| "jsLess a NaN = False"
| "jsLess (Fin a) (Fin b) = (a < b)"
| "jsLess a PInf = (a \<noteq> PInf)"
| "jsLess NInf b = (b \<noteq> NInf)"
| "jsLess a b = False"

definition jsGreater :: "jsnum \<Rightarrow> jsnum \<Rightarrow> bool" where
  "jsGreater a b = jsLess b a"

text \<open>\<^verbatim>\<open>Math.max\<close> and \<^verbatim>\<open>Math.min\<close> of two numbers: NaN if either is NaN.\<close>

definition jsMax :: "jsnum \<Rightarrow> jsnum \<Rightarrow> jsnum" where
  "jsMax a b = (if a = NaN \<or> b = NaN then NaN else if jsLess a b then b else a)"

definition jsMin :: "jsnum \<Rightarrow> jsnum \<Rightarrow> jsnum" where
  "jsMin a b = (if a = NaN \<or> b = NaN then NaN else if jsLess b a then b else a)"

text \<open>\<^verbatim>\<open>Math.round\<close> rounds to the nearest integer, a tie towards \<open>+\<infinity>\<close>.\<close>

definition jsRound :: "jsnum \<Rightarrow> jsnum" where
  "jsRound a = (case a of Fin x \<Rightarrow> Fin (of_int \<lfloor>x + 1 / 2\<rfloor>) | _ \<Rightarrow> a)"

definition jsFloor :: "jsnum \<Rightarrow> jsnum" where
  "jsFloor a = (case a of Fin x \<Rightarrow> Fin (of_int \<lfloor>x\<rfloor>) | _ \<Rightarrow> a)"

definition jsCeil :: "jsnum \<Rightarrow> jsnum" where
  "jsCeil a = (case a of Fin x \<Rightarrow> Fin (of_int \<lceil>x\<rceil>) | _ \<Rightarrow> a)"

definition jsSqrt :: "jsnum \<Rightarrow> jsnum" where
  "jsSqrt a =
     (case a of Fin x \<Rightarrow> if x < 0 then NaN else Fin (sqrt x) | PInf \<Rightarrow> PInf | _ \<Rightarrow> NaN)"

text \<open>Truthiness of a number: \<open>0\<close> and NaN are falsy.\<close>

definition truthy :: "jsnum \<Rightarrow> bool" where
  "truthy a = (case a of Fin x \<Rightarrow> x \<noteq> 0 | NaN \<Rightarrow> False | _ \<Rightarrow> True)"

text \<open>
  \<^verbatim>\<open>Number.parseFloat\<close>: leading white space is skipped, then the longest prefix that
  is a decimal literal (sign, digits, fraction, exponent, or \<^verbatim>\<open>Infinity\<close>) is read;
  NaN if there is none.
\<close>

definition digitsValue :: "jsstring \<Rightarrow> nat" where
  "digitsValue ds = foldl (\<lambda>n c. 10 * n + (c - 48)) 0 ds"

definition signOf :: "jsstring \<Rightarrow> bool \<times> jsstring" where
  "signOf s =
     (case s of
        [] \<Rightarrow> (False, [])
      | c # cs \<Rightarrow> if c = ch CHR ''-'' then (True, cs)
                  else if c = ch CHR ''+'' then (False, cs) else (False, s))"

definition exponentOf :: "jsstring \<Rightarrow> int" where
  "exponentOf s =
     (case s of
        [] \<Rightarrow> 0
      | c # cs \<Rightarrow>
          if c = ch CHR ''e'' \<or> c = ch CHR ''E'' then
            (let (neg, t) = signOf cs; ds = takeWhile isDigit t
             in if ds = [] then 0
                else if neg then - int (digitsValue ds) else int (digitsValue ds))
          else 0)"

definition scale10 :: "real \<Rightarrow> int \<Rightarrow> real" where
  "scale10 x e = (if 0 \<le> e then x * 10 ^ nat e else x / 10 ^ nat (- e))"

definition parseFloat :: "jsstring \<Rightarrow> jsnum" where
  "parseFloat s =
     (let (neg, t) = signOf (trimStart s) in
      if startsWith t (str ''Infinity'') then (if neg then NInf else PInf)
      else
        let ip = takeWhile isDigit t;
            t2 = dropWhile isDigit t;
            hasDot = (t2 \<noteq> [] \<and> hd t2 = ch CHR ''.'');
            fp = (if hasDot then takeWhile isDigit (tl t2) else []);
            t3 = (if hasDot then dropWhile isDigit (tl t2) else t2)
        in if ip = [] \<and> fp = [] then NaN
           else
             let m = scale10 (real (digitsValue (ip @ fp))) (exponentOf t3 - int (length fp))
             in Fin (if neg then - m else m))"

text \<open>
  \<^verbatim>\<open>JSON.stringify\<close> of an array of numbers.  The text is kept as its sequence of
  elements: a finite number is printed as a number, NaN and the infinities as
  \<^verbatim>\<open>null\<close>.
\<close>

datatype json = JNull | JNumber real

definition JSON_stringify :: "jsnum list \<Rightarrow> json list" where
  "JSON_stringify ns = map (\<lambda>n. case n of Fin x \<Rightarrow> JNumber x | _ \<Rightarrow> JNull) ns"

section \<open>Plain objects\<close>

text \<open>
  An object created by \<^verbatim>\<open>{}\<close> and filled by assignments \<^verbatim>\<open>o[k] = v\<close> is the list of its
  own properties in creation order.  Assigning a string to the key \<^verbatim>\<open>__proto__\<close> goes
  to the setter inherited from \<^verbatim>\<open>Object.prototype\<close>, which ignores it.
  \<^verbatim>\<open>Object.entries\<close> lists the keys that are array indices first, in ascending order,
  then the other keys in creation order.
\<close>

type_synonym 'v jsobject = "(jsstring \<times> 'v) list"

definition objSet :: "jsstring \<Rightarrow> 'v \<Rightarrow> 'v jsobject \<Rightarrow> 'v jsobject" where
  "objSet k v obj =
     (if k = str ''__proto__'' then obj
      else if k \<in> fst ` set obj then map (\<lambda>(k', v'). if k' = k then (k', v) else (k', v')) obj
      else obj @ [(k, v)])"

definition objGet :: "'v jsobject \<Rightarrow> jsstring \<Rightarrow> 'v option" where
  "objGet obj k = map_of obj k"

definition isArrayIndex :: "jsstring \<Rightarrow> bool" where
  "isArrayIndex k =
     (k \<noteq> [] \<and> list_all isDigit k \<and> (k = str ''0'' \<or> hd k \<noteq> ch CHR ''0'')
      \<and> digitsValue k < 4294967295)"

definition Object_entries :: "'v jsobject \<Rightarrow> (jsstring \<times> 'v) list" where
  "Object_entries obj =
     sort_key (\<lambda>(k, v). digitsValue k) (filter (\<lambda>(k, v). isArrayIndex k) obj)
     @ filter (\<lambda>(k, v). \<not> isArrayIndex k) obj"

section \<open>The smart-resize calculator\<close>

definition roundByFactor :: "jsnum \<Rightarrow> jsnum \<Rightarrow> jsnum" where
  "roundByFactor num factor = jsMul (jsRound (jsDiv num factor)) factor"

definition floorByFactor :: "jsnum \<Rightarrow> jsnum \<Rightarrow> jsnum" where
  "floorByFactor num factor = jsMul (jsFloor (jsDiv num factor)) factor"

definition ceilByFactor :: "jsnum \<Rightarrow> jsnum \<Rightarrow> jsnum" where
  "ceilByFactor num factor = jsMul (jsCeil (jsDiv num factor)) factor"

text \<open>The result is \<open>None\<close> for \<^verbatim>\<open>null\<close>, else the pair \<^verbatim>\<open>[wBar, hBar]\<close>.\<close>

definition smartResizeForV15 ::
  "jsnum \<Rightarrow> jsnum \<Rightarrow> jsnum \<Rightarrow> jsnum \<Rightarrow> jsnum \<Rightarrow> jsnum \<Rightarrow> (jsnum \<times> jsnum) option" where
  "smartResizeForV15 height width maxRatio factor minPixels maxPixels =
     (if jsGreater (jsDiv (jsMax height width) (jsMin height width)) maxRatio then None
      else
        let wBar = jsMax factor (roundByFactor width factor);
            hBar = jsMax factor (roundByFactor height factor)
        in if jsGreater (jsMul hBar wBar) maxPixels then
             (let beta = jsSqrt (jsDiv (jsMul height width) maxPixels)
              in Some (floorByFactor (jsDiv width beta) factor,
                       floorByFactor (jsDiv height beta) factor))
           else if jsLess (jsMul hBar wBar) minPixels then
             (let beta = jsSqrt (jsDiv minPixels (jsMul height width))
              in Some (ceilByFactor (jsMul width beta) factor,
                       ceilByFactor (jsMul height beta) factor))
           else Some (wBar, hBar))"

section \<open>The action call parser\<close>

record ActionCall =
  functionName :: jsstring
  args :: "jsstring jsobject"

definition boxMarkerPattern :: regex where
  "boxMarkerPattern = Alt (Lits (str ''<|box_start|>'')) (Lits (str ''<|box_end|>''))"

definition barePointPattern :: regex where
  "barePointPattern = Seq (NotBehind [str ''start_'', str ''end_'']) (Lits (str ''point=''))"

definition functionPattern :: regex where
  "functionPattern =
     Seqs [Bol, Grp 1 (Plus (Cls False [CWord])), Chr (ch CHR ''(''), Grp 2 (Star Dot),
           Chr (ch CHR '')''), Eol]"

definition argPairPattern :: regex where
  "argPairPattern =
     Plus (Grp 1 (Alt (Cls True [CChar (ch CHR '',''), CChar apostrophe])
                      (Seqs [Chr apostrophe, Star (Cls True [CChar apostrophe]), Chr apostrophe])))"

definition surroundingQuotePattern :: regex where
  "surroundingQuotePattern =
     Alt (Seq Bol (Cls False [CChar apostrophe, CChar dquote]))
         (Seq (Cls False [CChar apostrophe, CChar dquote]) Eol)"

definition bboxTagPattern :: regex where
  "bboxTagPattern = Alt (Lits (str ''<bbox>'')) (Lits (str ''</bbox>''))"

definition pointTagPattern :: regex where
  "pointTagPattern = Alt (Lits (str ''<point>'')) (Lits (str ''</point>''))"

definition spacesPattern :: regex where
  "spacesPattern = Plus (Cls False [CSpace])"

definition numberPattern :: regex where
  "numberPattern = Seq (Plus (Cls False [CDigit])) (Opt (Seq (Chr (ch CHR ''.'')) (Plus (Cls False [CDigit]))))"

definition coordPattern :: regex where
  "coordPattern =
     Seqs [Cls False [CChar (ch CHR ''(''), CChar (ch CHR ''[''), CChar (ch CHR ''{'')],
           Star (Cls False [CSpace]), Grp 1 numberPattern, Star (Cls False [CSpace]),
           Chr (ch CHR '',''), Star (Cls False [CSpace]), Grp 2 numberPattern,
           Cls False [CChar (ch CHR '']''), CChar (ch CHR '')''), CChar (ch CHR ''}'')]]"

text \<open>The two patterns for the text of a \<^verbatim>\<open>type\<close> action carry the \<^verbatim>\<open>i\<close> flag.\<close>

definition textPattern :: regex where
  "textPattern =
     Seqs [Alt (Lits (str ''text'')) (Alt (Lits (str ''value'')) (Lits (str ''input''))),
           Star (Cls False [CSpace]), Cls False [CChar (ch CHR '':''), CChar (ch CHR ''='')],
           Star (Cls False [CSpace]), Opt (Cls False [CChar apostrophe, CChar dquote]),
           Grp 1 (Plus (Cls True [CChar apostrophe, CChar dquote, CChar (ch CHR ''}'')])),
           Opt (Cls False [CChar apostrophe, CChar dquote])]"

definition typePattern :: regex where
  "typePattern =
     Seqs [Lits (str ''type''), Plus (Cls False [CSpace]),
           Opt (Cls False [CChar apostrophe, CChar dquote]),
           Grp 1 (Plus (Cls True [CChar apostrophe, CChar dquote])),
           Opt (Cls False [CChar apostrophe, CChar dquote])]"

definition commonActions :: "jsstring list" where
  "commonActions =
     [str ''click'', str ''type'', str ''drag'', str ''scroll'', str ''wait'', str ''hover'',
      str ''finished'', str ''call_user'']"

text \<open>The preprocessing of a token: trimming, removal of the box markers, and the
  three renamings of point arguments.\<close>

definition preprocess :: "jsstring \<Rightarrow> jsstring" where
  "preprocess actionStr =
     replace False (Lits (str ''end_point='')) (str ''end_box='')
       (replace False (Lits (str ''start_point='')) (str ''start_box='')
         (replace False barePointPattern (str ''start_box='')
           (replace False boxMarkerPattern [] (trim actionStr))))"

text \<open>One \<^verbatim>\<open>key=value\<close> group of the argument list; a group without \<^verbatim>\<open>=\<close> is skipped.\<close>

definition tagValue :: "jsstring \<Rightarrow> regex \<Rightarrow> jsstring \<Rightarrow> jsstring" where
  "tagValue tag pat v =
     (if includesStr v tag
      then str ''('' @ replace False spacesPattern (str '','') (replace False pat [] v) @ str '')''
      else v)"

definition addPair :: "jsstring jsobject \<Rightarrow> jsstring \<Rightarrow> jsstring jsobject" where
  "addPair kwargs pair =
     (case indexOf pair (ch CHR ''='') of
        None \<Rightarrow> kwargs
      | Some splitIdx \<Rightarrow>
          let key = trim (take splitIdx pair);
              v0 = replace False surroundingQuotePattern [] (trim (drop (splitIdx + 1) pair));
              v1 = tagValue (str ''<bbox>'') bboxTagPattern v0;
              v2 = tagValue (str ''<point>'') pointTagPattern v1
          in objSet key v2 kwargs)"

text \<open>
  \<open>parseAction\<close>.  The lower-casing of strings follows the Unicode tables, which the
  model takes as the parameter \<open>toLowerCase\<close>.  None of the string and pattern
  operations of the body raises, so the \<^verbatim>\<open>catch\<close> branch is never taken: the groups
  read from a match always took part in it (lemma \<open>pattern_groups_present\<close> below).
\<close>

definition heuristic :: "(jsstring \<Rightarrow> jsstring) \<Rightarrow> jsstring \<Rightarrow> ActionCall option" where
  "heuristic toLowerCase actionStr =
     (let lowerStr = toLowerCase actionStr
      in case find (\<lambda>act. includesStr lowerStr act) commonActions of
           None \<Rightarrow> None
         | Some actionFound \<Rightarrow>
             let kwargs0 =
                   (case matchRegex False coordPattern actionStr of
                      None \<Rightarrow> []
                    | Some cs \<Rightarrow>
                        objSet (str ''start_box'')
                          (str ''('' @ the (capture 1 cs) @ str '','' @ the (capture 2 cs) @ str '')'') []);
                 kwargs1 =
                   (if actionFound = str ''type'' then
                      (case (case matchRegex True textPattern actionStr of
                               Some cs \<Rightarrow> Some cs
                             | None \<Rightarrow> matchRegex True typePattern actionStr) of
                         None \<Rightarrow> kwargs0
                       | Some cs \<Rightarrow> objSet (str ''content'') (trim (the (capture 1 cs))) kwargs0)
                    else kwargs0)
             in Some \<lparr>functionName = actionFound, args = kwargs1\<rparr>)"

definition parseAction :: "(jsstring \<Rightarrow> jsstring) \<Rightarrow> jsstring \<Rightarrow> ActionCall option" where
  "parseAction toLowerCase actionStr0 =
     (let actionStr = preprocess actionStr0
      in case matchRegex False functionPattern actionStr of
           Some cs \<Rightarrow>
             let fname = the (capture 1 cs);
                 argsStr = the (capture 2 cs);
                 kwargs = (if trim argsStr \<noteq> []
                           then foldl addPair [] (matchAll False argPairPattern [] argsStr)
                           else [])
             in Some \<lparr>functionName = fname, args = kwargs\<rparr>
         | None \<Rightarrow> heuristic toLowerCase actionStr)"

section \<open>The prediction segmenter\<close>

datatype Mode = BC | O1

definition anyChar :: regex where
  "anyChar = Cls False [CSpace, CNotSpace]"

definition actionMarkerPattern :: regex where
  "actionMarkerPattern =
     Seq (Lits (str ''Action'')) (Cls False [CChar (ch CHR '':''), CChar fullwidthColon])"

text \<open>The lookahead \<^verbatim>\<open>(?=\s*Action[:\<dots>]|$)\<close> that ends a thought.\<close>

definition untilActionPattern :: regex where
  "untilActionPattern = Ahead (Alt (Seq (Star (Cls False [CSpace])) actionMarkerPattern) Eol)"

definition thoughtPattern :: regex where
  "thoughtPattern = Seqs [Lits (str ''Thought: ''), Grp 1 (LazyPlus anyChar), untilActionPattern]"

definition reflectionPattern :: regex where
  "reflectionPattern =
     Seqs [Lits (str ''Reflection: ''), Grp 1 (LazyPlus anyChar),
           Lits (str ''Action_Summary: ''), Grp 2 (LazyPlus anyChar), untilActionPattern]"

definition summaryPattern :: regex where
  "summaryPattern = Seqs [Lits (str ''Action_Summary: ''), Grp 1 (LazyPlus Dot), untilActionPattern]"

definition o1ThoughtPattern :: regex where
  "o1ThoughtPattern =
     Seqs [Lits (str ''<Thought>''), Star (Cls False [CSpace]), Grp 1 (LazyStar Dot),
           Star (Cls False [CSpace]), Lits (str ''</Thought>'')]"

definition o1SummaryPattern :: regex where
  "o1SummaryPattern =
     Seqs [Chr newline, Lits (str ''Action_Summary:''), Star (Cls False [CSpace]),
           Grp 1 (LazyStar Dot), Star (Cls False [CSpace]), Lits (str ''Action:'')]"

definition o1ActionPattern :: regex where
  "o1ActionPattern =
     Seqs [Chr newline, Lits (str ''Action:''), Star (Cls False [CSpace]),
           Grp 1 (LazyStar Dot), Star (Cls False [CSpace]), Lits (str ''</Output>'')]"

text \<open>Group \<open>n\<close> of an optional match, \<open>None\<close> for \<^verbatim>\<open>null\<close>.\<close>

definition groupOf :: "nat \<Rightarrow> (nat \<times> jsstring) list option \<Rightarrow> jsstring option" where
  "groupOf n m = (case m of None \<Rightarrow> None | Some cs \<Rightarrow> capture n cs)"

text \<open>The thought and the reflection of the \<^verbatim>\<open>bc\<close> format, from the trimmed text:
  the pair \<open>(reflection, thought)\<close>.\<close>

definition bcThought :: "jsstring \<Rightarrow> jsstring option \<times> jsstring option" where
  "bcThought text =
     (if includesStr text (str ''Thought:'') then
        (None, map_option trim (groupOf 1 (matchRegex False thoughtPattern text)))
      else if startsWith text (str ''Reflection:'') then
        (let m = matchRegex False reflectionPattern text
         in (map_option trim (groupOf 1 m), map_option trim (groupOf 2 m)))
      else if startsWith text (str ''Action_Summary:'') then
        (None, map_option trim (groupOf 1 (matchRegex False summaryPattern text)))
      else (None, None))"

text \<open>The action-string of the \<^verbatim>\<open>bc\<close> format, from the trimmed text.\<close>

definition bcActionStr :: "jsstring \<Rightarrow> jsstring" where
  "bcActionStr text =
     (if \<not> (\<exists>keyword \<in> set [str ''Action:'', str ''Action'' @ [fullwidthColon]].
               includesStr text keyword)
      then text
      else last (splitRegex False actionMarkerPattern text))"

text \<open>A template literal prints \<^verbatim>\<open>null\<close> as the text \<^verbatim>\<open>null\<close>.\<close>

definition interpolate :: "jsstring option \<Rightarrow> jsstring" where
  "interpolate v = (case v of None \<Rightarrow> str ''null'' | Some t \<Rightarrow> t)"

definition o1Thought :: "jsstring \<Rightarrow> jsstring" where
  "o1Thought text =
     interpolate (groupOf 1 (matchRegex False o1ThoughtPattern text))
     @ [newline] @ str ''<Action_Summary>'' @ [newline]
     @ interpolate (groupOf 1 (matchRegex False o1SummaryPattern text))"

definition o1ActionStr :: "jsstring \<Rightarrow> jsstring" where
  "o1ActionStr text =
     (case groupOf 1 (matchRegex False o1ActionPattern text) of None \<Rightarrow> [] | Some a \<Rightarrow> a)"

text \<open>The three results of the segmenter for the untrimmed text of a prediction.\<close>

definition reflectionOf :: "Mode \<Rightarrow> jsstring \<Rightarrow> jsstring option" where
  "reflectionOf mode text = (case mode of BC \<Rightarrow> fst (bcThought (trim text)) | O1 \<Rightarrow> None)"

definition thoughtOf :: "Mode \<Rightarrow> jsstring \<Rightarrow> jsstring option" where
  "thoughtOf mode text =
     (case mode of BC \<Rightarrow> snd (bcThought (trim text)) | O1 \<Rightarrow> Some (o1Thought (trim text)))"

definition actionStrOf :: "Mode \<Rightarrow> jsstring \<Rightarrow> jsstring" where
  "actionStrOf mode text =
     (case mode of BC \<Rightarrow> bcActionStr (trim text) | O1 \<Rightarrow> o1ActionStr (trim text))"

text \<open>The action tokens: the action-string split at runs of newlines, without the
  pieces that are empty when trimmed.\<close>

definition newlinesPattern :: regex where
  "newlinesPattern = Plus (Chr newline)"

definition allActions :: "jsstring \<Rightarrow> jsstring list" where
  "allActions actionStr = filter (\<lambda>a. trim a \<noteq> []) (splitRegex False newlinesPattern actionStr)"

section \<open>The coordinate normaliser and the pipeline\<close>

text \<open>
  Modelled from the spec: the enumeration \<^verbatim>\<open>UITarsModelVersion\<close> and the constants
  \<^verbatim>\<open>MAX_RATIO\<close>, \<^verbatim>\<open>IMAGE_FACTOR\<close>, \<^verbatim>\<open>MIN_PIXELS\<close> and \<^verbatim>\<open>MAX_PIXELS_V1_5\<close> are declared in
  the package \<^verbatim>\<open>@ui-tars/shared/types\<close>.  The enumeration has the two versions the spec
  names; the constants are parameters of the model.
\<close>

datatype UITarsModelVersion = V1_0 | V1_5

record SharedTypes =
  MAX_RATIO :: jsnum
  IMAGE_FACTOR :: jsnum
  MIN_PIXELS :: jsnum
  MAX_PIXELS_V1_5 :: jsnum

record ScreenContext =
  width :: jsnum
  height :: jsnum

text \<open>A value of \<^verbatim>\<open>action_inputs\<close>: a string, the JSON text of a box, or an array of
  numbers (the coordinates).\<close>

datatype inputValue = StrVal jsstring | JsonVal "json list" | NumsVal "jsnum list"

record PredictionParsed =
  reflection :: "jsstring option"
  thought :: jsstring
  action_type :: jsstring
  action_inputs :: "inputValue jsobject"

definition bracketPattern :: regex where
  "bracketPattern =
     Cls False [CChar (ch CHR ''(''), CChar (ch CHR '')''), CChar (ch CHR ''[''), CChar (ch CHR '']'')]"

text \<open>\<^verbatim>\<open>screenContext?.width && screenContext?.height\<close>.\<close>

definition hasScreen :: "ScreenContext option \<Rightarrow> bool" where
  "hasScreen sc = (case sc of None \<Rightarrow> False | Some c \<Rightarrow> truthy (width c) \<and> truthy (height c))"

definition nthOpt :: "'a list \<Rightarrow> nat \<Rightarrow> 'a option" where
  "nthOpt xs i = (if i < length xs then Some (xs ! i) else None)"

text \<open>The numbers of a box: the brackets go, the text is split at commas, empty
  pieces go, and each number is divided by the factor of its parity.\<close>

definition floatNumbersOf ::
  "UITarsModelVersion \<Rightarrow> (jsnum \<times> jsnum) option \<Rightarrow> jsnum \<times> jsnum \<Rightarrow> jsstring \<Rightarrow> jsnum list" where
  "floatNumbersOf modelVer smartResizeFactors factors oriBox =
     (let numbers = filter (\<lambda>ori. ori \<noteq> []) (splitChar (ch CHR '','') (replace False bracketPattern [] oriBox));
          floatNumbers =
            map (\<lambda>(num, idx).
                   let factorIndex = idx mod 2
                   in case (if modelVer = V1_5 then smartResizeFactors else None) of
                        Some rf \<Rightarrow> jsDiv (parseFloat num) (if factorIndex = 0 then fst rf else snd rf)
                      | None \<Rightarrow> jsDiv (parseFloat num) (if factorIndex = 0 then fst factors else snd factors))
                (zip numbers [0 ..< length numbers])
      in if length floatNumbers = 2 then floatNumbers @ [floatNumbers ! 0, floatNumbers ! 1]
         else floatNumbers)"

text \<open>
  The coordinates of a box on the screen.  The destructuring
  \<^verbatim>\<open>[x1, y1, x2 = x1, y2 = y1]\<close> leaves a missing element undefined (\<open>None\<close>), and
  \<^verbatim>\<open>isNumber\<close> of lodash holds for every value of type number, NaN and the infinities
  included.
\<close>

definition isNumber :: "jsnum option \<Rightarrow> bool" where
  "isNumber v = (v \<noteq> None)"

definition coordsOf ::
  "jsnum list \<Rightarrow> jsnum \<times> jsnum \<Rightarrow> ScreenContext \<Rightarrow> jsnum option \<Rightarrow> jsnum list" where
  "coordsOf floatNumbers factors sc scaleFactor =
     (let x1 = nthOpt floatNumbers 0;
          y1 = nthOpt floatNumbers 1;
          x2 = (case nthOpt floatNumbers 2 of None \<Rightarrow> x1 | Some v \<Rightarrow> Some v);
          y2 = (case nthOpt floatNumbers 3 of None \<Rightarrow> y1 | Some v \<Rightarrow> Some v);
          widthFactor = fst factors;
          heightFactor = snd factors;
          scale = (case scaleFactor of None \<Rightarrow> Fin 1 | Some f \<Rightarrow> f)
      in if list_all isNumber [x1, y1, x2, y2] then
           [jsMul (jsDiv (jsRound (jsMul (jsMul (jsDiv (jsAdd (the x1) (the x2)) (Fin 2)) (width sc))
                                          widthFactor))
                         widthFactor) scale,
            jsMul (jsDiv (jsRound (jsMul (jsMul (jsDiv (jsAdd (the y1) (the y2)) (Fin 2)) (height sc))
                                          heightFactor))
                         heightFactor) scale]
         else [])"

text \<open>One argument of a parsed call, stored into \<^verbatim>\<open>actionInputs\<close>.\<close>

definition storeParam ::
  "UITarsModelVersion \<Rightarrow> (jsnum \<times> jsnum) option \<Rightarrow> jsnum \<times> jsnum \<Rightarrow> ScreenContext option
     \<Rightarrow> jsnum option \<Rightarrow> inputValue jsobject \<Rightarrow> jsstring \<times> jsstring \<Rightarrow> inputValue jsobject" where
  "storeParam modelVer smartResizeFactors factors screenContext scaleFactor actionInputs entry =
     (let paramName = fst entry; param = snd entry
      in if param = [] then actionInputs
         else
           let trimmedParam = trim param
           in if includesStr paramName (str ''start_box'') \<or> includesStr paramName (str ''end_box'')
              then
                let floatNumbers = floatNumbersOf modelVer smartResizeFactors factors trimmedParam;
                    inputs1 = objSet (trim paramName) (JsonVal (JSON_stringify floatNumbers)) actionInputs
                in if hasScreen screenContext then
                     objSet (if includesStr paramName (str ''start_box'')
                             then str ''start_coords'' else str ''end_coords'')
                       (NumsVal (coordsOf floatNumbers factors (the screenContext) scaleFactor)) inputs1
                   else inputs1
              else objSet (trim paramName) (StrVal trimmedParam) actionInputs)"

text \<open>The text of a token as \<open>parseAction\<close> receives it:
  \<^verbatim>\<open>rawStr.replace(/\\n/g, String.raw`\n`).trimStart()\<close>.  Pattern and replacement are both
  a backslash followed by the letter n.\<close>

definition tokenText :: "jsstring \<Rightarrow> jsstring" where
  "tokenText rawStr =
     trimStart (replace False (Lits [backslash, ch CHR ''n'']) [backslash, ch CHR ''n''] rawStr)"

text \<open>One action token, turned into one entry of the result.\<close>

definition parseToken ::
  "(jsstring \<Rightarrow> jsstring) \<Rightarrow> UITarsModelVersion \<Rightarrow> (jsnum \<times> jsnum) option \<Rightarrow> jsnum \<times> jsnum
     \<Rightarrow> ScreenContext option \<Rightarrow> jsnum option \<Rightarrow> jsstring option \<Rightarrow> jsstring option \<Rightarrow> jsstring
     \<Rightarrow> PredictionParsed" where
  "parseToken toLowerCase modelVer smartResizeFactors factors screenContext scaleFactor
       reflectionV thoughtV rawStr =
     (let actionInstance = parseAction toLowerCase (tokenText rawStr)
      in \<lparr>reflection = reflectionV,
          thought = (case thoughtV of None \<Rightarrow> [] | Some t \<Rightarrow> t),
          action_type = (case actionInstance of None \<Rightarrow> [] | Some a \<Rightarrow> functionName a),
          action_inputs =
            (case actionInstance of
               None \<Rightarrow> []
             | Some a \<Rightarrow>
                 foldl (storeParam modelVer smartResizeFactors factors screenContext scaleFactor)
                   [] (Object_entries (args a)))\<rparr>)"

definition parseActionVlm ::
  "(jsstring \<Rightarrow> jsstring) \<Rightarrow> SharedTypes \<Rightarrow> jsstring \<Rightarrow> jsnum \<times> jsnum \<Rightarrow> Mode
     \<Rightarrow> ScreenContext option \<Rightarrow> jsnum option \<Rightarrow> UITarsModelVersion \<Rightarrow> PredictionParsed list" where
  "parseActionVlm toLowerCase shared text factors mode screenContext scaleFactor modelVer =
     (let smartResizeFactors =
            (if modelVer = V1_5 \<and> hasScreen screenContext
             then smartResizeForV15 (height (the screenContext)) (width (the screenContext))
                    (MAX_RATIO shared) (IMAGE_FACTOR shared) (MIN_PIXELS shared) (MAX_PIXELS_V1_5 shared)
             else None)
      in map (parseToken toLowerCase modelVer smartResizeFactors factors screenContext scaleFactor
                (reflectionOf mode text) (thoughtOf mode text))
           (allActions (actionStrOf mode text)))"

text \<open>The entry point.  A scalar factor stands for both factors; a missing mode is
  \<^verbatim>\<open>bc\<close> and a missing model version is \<^verbatim>\<open>V1_0\<close>.\<close>

datatype factorArg = Scalar jsnum | Both jsnum jsnum

record Params =
  prediction :: jsstring
  factor :: factorArg
  screenContext :: "ScreenContext option"
  scaleFactor :: "jsnum option"
  mode :: "Mode option"
  modelVer :: "UITarsModelVersion option"

definition actionParser ::
  "(jsstring \<Rightarrow> jsstring) \<Rightarrow> SharedTypes \<Rightarrow> Params \<Rightarrow> PredictionParsed list" where
  "actionParser toLowerCase shared params =
     parseActionVlm toLowerCase shared (prediction params)
       (case factor params of Scalar f \<Rightarrow> (f, f) | Both fw fh \<Rightarrow> (fw, fh))
       (case mode params of None \<Rightarrow> BC | Some m \<Rightarrow> m)
       (screenContext params) (scaleFactor params)
       (case modelVer params of None \<Rightarrow> V1_0 | Some v \<Rightarrow> v)"

section \<open>Auxiliary notions of the proofs\<close>

text \<open>The groups that certainly took part when a pattern has matched.\<close>

primrec sureGroups :: "regex \<Rightarrow> nat list" where
  "sureGroups (Chr a) = []"
| "sureGroups Dot = []"
| "sureGroups (Cls neg items) = []"
| "sureGroups Empty = []"
| "sureGroups (Seq r1 r2) = sureGroups r1 @ sureGroups r2"
| "sureGroups (Alt r1 r2) = filter (\<lambda>n. n \<in> set (sureGroups r2)) (sureGroups r1)"
| "sureGroups (Rep mn mx greedy r) = (if 0 < mn \<and> mx = None then sureGroups r else [])"
| "sureGroups (Grp n r) = n # sureGroups r"
| "sureGroups (Ahead r) = sureGroups r"
| "sureGroups (NotBehind ps) = []"
| "sureGroups Bol = []"
| "sureGroups Eol = []"

definition sameOutside :: "nat list \<Rightarrow> mstate \<Rightarrow> mstate \<Rightarrow> bool" where
  "sameOutside gs x y = (\<forall>n. n \<notin> set gs \<longrightarrow> map_of (captures y) n = map_of (captures x) n)"

definition hasGroups :: "nat list \<Rightarrow> mstate \<Rightarrow> bool" where
  "hasGroups gs y = (\<forall>n \<in> set gs. map_of (captures y) n \<noteq> None)"

text \<open>
  The matcher with \<open>k\<close> more iterations allowed to every quantifier than the bound of
  \<open>matcher\<close>; a matcher is forward when it calls its continuation only on states that
  have no more text left than the state it started from.
\<close>

primrec matcherK :: "nat \<Rightarrow> bool \<Rightarrow> regex \<Rightarrow> mstate \<Rightarrow> mcont \<Rightarrow> mstate option" where
  "matcherK k ic (Chr a) x c = oneChar (\<lambda>d. a \<in> set (variants ic d)) x c"
| "matcherK k ic Dot x c = oneChar (\<lambda>d. \<not> isLineTerminator d) x c"
| "matcherK k ic (Cls neg items) x c = oneChar (\<lambda>d. neg \<noteq> (\<exists>i \<in> set items. csetMember ic d i)) x c"
| "matcherK k ic Empty x c = c x"
| "matcherK k ic (Seq r1 r2) x c = matcherK k ic r1 x (\<lambda>y. matcherK k ic r2 y c)"
| "matcherK k ic (Alt r1 r2) x c =
     (case matcherK k ic r1 x c of Some z \<Rightarrow> Some z | None \<Rightarrow> matcherK k ic r2 x c)"
| "matcherK k ic (Rep mn mx greedy r) x c =
     repeatMatcher (Suc (mn + length (rest x)) + k) (matcherK k ic r) (groupsOf r) mn mx greedy x c"
| "matcherK k ic (Grp n r) x c = matcherK k ic r x (\<lambda>y. c (setGroup n x y))"
| "matcherK k ic (Ahead r) x c =
     (case matcherK k ic r x Some of
        None \<Rightarrow> None
      | Some y \<Rightarrow> c (x\<lparr>captures := captures y\<rparr>))"
| "matcherK k ic (NotBehind ps) x c =
     (if \<exists>p \<in> set ps. startsWith (behind x) (rev p) then None else c x)"
| "matcherK k ic Bol x c = (if behind x = [] then c x else None)"
| "matcherK k ic Eol x c = (if rest x = [] then c x else None)"

definition guard :: "nat \<Rightarrow> mcont \<Rightarrow> mcont" where
  "guard n c = (\<lambda>y. if length (rest y) \<le> n then c y else None)"

definition forward :: "(mstate \<Rightarrow> mcont \<Rightarrow> mstate option) \<Rightarrow> bool" where
  "forward m = (\<forall>x c. m x c = m x (guard (length (rest x)) c))"

definition repeatStep ::
  "(nat \<Rightarrow> nat option \<Rightarrow> mstate \<Rightarrow> mcont \<Rightarrow> mstate option) \<Rightarrow> (mstate \<Rightarrow> mcont \<Rightarrow> mstate option)
     \<Rightarrow> nat list \<Rightarrow> nat \<Rightarrow> nat option \<Rightarrow> bool \<Rightarrow> mstate \<Rightarrow> mcont \<Rightarrow> mstate option" where
  "repeatStep R m gs mn mx greedy x c =
     (if mx = Some 0 then c x
      else
        let d = (\<lambda>y. if mn = 0 \<and> length (rest y) = length (rest x) then None
                     else R (mn - 1) (map_option (\<lambda>k. k - 1) mx) y c);
            xr = clearGroups gs x
        in if mn \<noteq> 0 then m xr d
           else if \<not> greedy then (case c x of Some z \<Rightarrow> Some z | None \<Rightarrow> m xr d)
           else (case m xr d of Some z \<Rightarrow> Some z | None \<Rightarrow> c x))"

text \<open>Lower-casing of ASCII text, and sample values of the shared constants, for the
  examples.\<close>

definition asciiLower :: "jsstring \<Rightarrow> jsstring" where
  "asciiLower s = map (\<lambda>c. if 65 \<le> c \<and> c \<le> 90 then c + 32 else c) s"

definition sampleShared :: SharedTypes where
  "sampleShared =
     \<lparr>MAX_RATIO = Fin 200, IMAGE_FACTOR = Fin 28, MIN_PIXELS = Fin 78400,
      MAX_PIXELS_V1_5 = Fin 12845056\<rparr>"

text \<open>A marker \<^verbatim>\<open>Action:\<close> (with either colon) occurs at position \<open>i\<close> of a text.\<close>

definition markerAt :: "jsstring \<Rightarrow> nat \<Rightarrow> bool" where
  "markerAt s i =
     (startsWith (drop i s) (str ''Action:'') \<or> startsWith (drop i s) (str ''Action'' @ [fullwidthColon]))"

definition marker1 :: jsstring where "marker1 = str ''Action:''"
definition marker2 :: jsstring where "marker2 = str ''Action'' @ [fullwidthColon]"





section \<open>Properties\<close>

subsection \<open>Evaluation\<close>

lemmas js_eval = str_def ch_def apostrophe_def dquote_def backslash_def newline_def fullwidthColon_def
  isLineTerminator_def isWhiteSpace_def isDigit_def isWordChar_def trimStart_def trimEnd_def trim_def
  startsWith_def Lits_def Seqs_def variants_def advance_def oneChar_def clearGroups_def setGroup_def
  matchAt_def matchRegex_def capture_def replace_def splitRegex_def
  jsNeg_def jsGreater_def jsMax_def jsMin_def jsRound_def jsFloor_def jsCeil_def jsSqrt_def truthy_def
  digitsValue_def signOf_def exponentOf_def scale10_def parseFloat_def JSON_stringify_def
  objSet_def objGet_def isArrayIndex_def Object_entries_def
  boxMarkerPattern_def barePointPattern_def functionPattern_def argPairPattern_def
  surroundingQuotePattern_def bboxTagPattern_def pointTagPattern_def spacesPattern_def numberPattern_def
  coordPattern_def textPattern_def typePattern_def commonActions_def preprocess_def tagValue_def
  addPair_def heuristic_def parseAction_def anyChar_def actionMarkerPattern_def untilActionPattern_def
  thoughtPattern_def reflectionPattern_def summaryPattern_def o1ThoughtPattern_def o1SummaryPattern_def
  o1ActionPattern_def groupOf_def bcThought_def bcActionStr_def interpolate_def o1Thought_def
  o1ActionStr_def reflectionOf_def thoughtOf_def actionStrOf_def newlinesPattern_def allActions_def
  bracketPattern_def hasScreen_def nthOpt_def floatNumbersOf_def isNumber_def coordsOf_def
  storeParam_def tokenText_def parseToken_def parseActionVlm_def actionParser_def asciiLower_def Let_def

subsection \<open>Groups that take part in every match\<close>

lemma sameOutside_refl [simp]: "sameOutside gs x x"
  by (simp add: sameOutside_def)

lemma sameOutside_trans: "sameOutside gs x y \<Longrightarrow> sameOutside gs y z \<Longrightarrow> sameOutside gs x z"
  by (simp add: sameOutside_def)

lemma sameOutside_mono: "sameOutside gs x y \<Longrightarrow> set gs \<subseteq> set gs' \<Longrightarrow> sameOutside gs' x y"
  by (auto simp: sameOutside_def)

lemma map_of_filter_neq: "map_of (filter (\<lambda>(m, v). P m) xs) n = (if P n then map_of xs n else None)"
  by (induction xs) auto

lemma sameOutside_clear: "sameOutside gs x (clearGroups gs x)"
  by (simp add: sameOutside_def clearGroups_def map_of_filter_neq)

lemma sameOutside_advance [simp]: "sameOutside gs x (advance x)"
  by (simp add: sameOutside_def advance_def split: list.splits)

lemma oneChar_calls:
  "oneChar P x c = Some z \<Longrightarrow> \<exists>y. c y = Some z \<and> sameOutside gs x y \<and> hasGroups [] y"
  by (auto simp: oneChar_def hasGroups_def split: list.splits if_splits)

lemma repeat_calls:
  assumes m: "\<And>x c z. m x c = Some z \<Longrightarrow> \<exists>y. c y = Some z \<and> sameOutside gs x y \<and> hasGroups sg y"
    and sub: "set sg \<subseteq> set gs"
  shows "repeatMatcher fuel m gs mn mx greedy x c = Some z \<Longrightarrow>
         \<exists>y. c y = Some z \<and> sameOutside gs x y \<and> ((mx = None \<and> (0 < mn \<or> hasGroups sg x)) \<longrightarrow> hasGroups sg y)"
proof (induction fuel arbitrary: mn mx x)
  case 0
  then show ?case by simp
next
  case (Suc fuel)
  let ?d = "\<lambda>y. if mn = 0 \<and> length (rest y) = length (rest x) then None
                 else repeatMatcher fuel m gs (mn - 1) (map_option (\<lambda>k. k - 1) mx) greedy y c"
  have iter: "\<exists>y. c y = Some z \<and> sameOutside gs x y \<and> (mx = None \<longrightarrow> hasGroups sg y)"
    if "m (clearGroups gs x) ?d = Some z"
  proof -
    from m[OF that] obtain y1 where y1: "?d y1 = Some z" "sameOutside gs (clearGroups gs x) y1" "hasGroups sg y1"
      by blast
    from y1(1) have "repeatMatcher fuel m gs (mn - 1) (map_option (\<lambda>k. k - 1) mx) greedy y1 c = Some z"
      by (simp split: if_splits)
    from Suc.IH[OF this] obtain y where y: "c y = Some z" "sameOutside gs y1 y"
      "(map_option (\<lambda>k. k - 1) mx = None \<and> (0 < mn - 1 \<or> hasGroups sg y1)) \<longrightarrow> hasGroups sg y"
      by blast
    have "sameOutside gs x y"
      using sameOutside_trans[OF sameOutside_trans[OF sameOutside_clear y1(2)] y(2)] .
    with y y1(3) show ?thesis by auto
  qed
  show ?case
  proof (cases "mx = Some 0")
    case True
    with Suc.prems show ?thesis by auto
  next
    case False
    with Suc.prems have
      "(if mn \<noteq> 0 then m (clearGroups gs x) ?d
        else if \<not> greedy then (case c x of Some z \<Rightarrow> Some z | None \<Rightarrow> m (clearGroups gs x) ?d)
        else (case m (clearGroups gs x) ?d of Some z \<Rightarrow> Some z | None \<Rightarrow> c x)) = Some z"
      by (simp add: Let_def)
    then consider "m (clearGroups gs x) ?d = Some z" | "mn = 0" "c x = Some z"
      by (auto split: if_splits option.splits)
    then show ?thesis
    proof cases
      case 1
      from iter[OF this] show ?thesis by auto
    next
      case 2
      then show ?thesis by (intro exI[of _ x]) auto
    qed
  qed
qed

lemma hasGroups_append: "hasGroups (as @ bs) y = (hasGroups as y \<and> hasGroups bs y)"
  by (auto simp: hasGroups_def)

lemma set_sureGroups: "set (sureGroups r) \<subseteq> set (groupsOf r)"
  by (induction r) auto

lemma hasGroups_sameOutside:
  "hasGroups as x \<Longrightarrow> sameOutside gs x y \<Longrightarrow> set as \<inter> set gs = {} \<Longrightarrow> hasGroups as y"
  by (auto simp: hasGroups_def sameOutside_def)

lemma matcher_calls:
  "distinct (groupsOf r) \<Longrightarrow> matcher ic r x c = Some z \<Longrightarrow>
   \<exists>y. c y = Some z \<and> sameOutside (groupsOf r) x y \<and> hasGroups (sureGroups r) y"
proof (induction r arbitrary: x c z)
  case (Seq r1 r2)
  from Seq.prems have d: "distinct (groupsOf r1)" "distinct (groupsOf r2)" "set (groupsOf r1) \<inter> set (groupsOf r2) = {}"
    by auto
  from Seq.prems(2) have "matcher ic r1 x (\<lambda>y. matcher ic r2 y c) = Some z" by simp
  from Seq.IH(1)[OF d(1) this] obtain y1 where y1: "matcher ic r2 y1 c = Some z"
    "sameOutside (groupsOf r1) x y1" "hasGroups (sureGroups r1) y1" by blast
  from Seq.IH(2)[OF d(2) y1(1)] obtain y where y: "c y = Some z"
    "sameOutside (groupsOf r2) y1 y" "hasGroups (sureGroups r2) y" by blast
  have "sameOutside (groupsOf r1 @ groupsOf r2) x y"
    using y1(2) y(2) by (auto simp: sameOutside_def)
  moreover have "hasGroups (sureGroups r1) y"
    using hasGroups_sameOutside[OF y1(3) y(2)] set_sureGroups[of r1] d(3) by blast
  ultimately show ?case using y by (auto simp: hasGroups_append)
next
  case (Alt r1 r2)
  from Alt.prems have d: "distinct (groupsOf r1)" "distinct (groupsOf r2)" by auto
  from Alt.prems(2) consider "matcher ic r1 x c = Some z" | "matcher ic r2 x c = Some z"
    by (auto split: option.splits)
  then show ?case
  proof cases
    case 1
    from Alt.IH(1)[OF d(1) 1] obtain y where y: "c y = Some z"
      "sameOutside (groupsOf r1) x y" "hasGroups (sureGroups r1) y" by blast
    have "sameOutside (groupsOf (Alt r1 r2)) x y"
      using y(2) by (auto simp: sameOutside_def)
    moreover have "hasGroups (sureGroups (Alt r1 r2)) y"
      using y(3) by (auto simp: hasGroups_def)
    ultimately show ?thesis using y(1) by blast
  next
    case 2
    from Alt.IH(2)[OF d(2) 2] obtain y where y: "c y = Some z"
      "sameOutside (groupsOf r2) x y" "hasGroups (sureGroups r2) y" by blast
    have "sameOutside (groupsOf (Alt r1 r2)) x y"
      using y(2) by (auto simp: sameOutside_def)
    moreover have "hasGroups (sureGroups (Alt r1 r2)) y"
      using y(3) by (auto simp: hasGroups_def)
    ultimately show ?thesis using y(1) by blast
  qed
next
  case (Rep mn mx greedy r)
  from Rep.prems have d: "distinct (groupsOf r)" by simp
  have m: "\<And>x c z. matcher ic r x c = Some z \<Longrightarrow>
       \<exists>y. c y = Some z \<and> sameOutside (groupsOf r) x y \<and> hasGroups (sureGroups r) y"
    using Rep.IH[OF d] by blast
  from Rep.prems(2) have
    "repeatMatcher (Suc (mn + length (rest x))) (matcher ic r) (groupsOf r) mn mx greedy x c = Some z"
    by simp
  from repeat_calls[of "matcher ic r" "groupsOf r" "sureGroups r", OF m set_sureGroups this]
  show ?case by (auto simp: hasGroups_def)
next
  case (Grp n r)
  from Grp.prems have d: "distinct (groupsOf r)" "n \<notin> set (groupsOf r)" by auto
  from Grp.prems(2) have "matcher ic r x (\<lambda>y. c (setGroup n x y)) = Some z" by simp
  from Grp.IH[OF d(1) this] obtain y where y: "c (setGroup n x y) = Some z"
    "sameOutside (groupsOf r) x y" "hasGroups (sureGroups r) y" by blast
  have "sameOutside (n # groupsOf r) x (setGroup n x y)"
    using y(2) by (auto simp: sameOutside_def setGroup_def map_of_filter_neq)
  moreover have "hasGroups (n # sureGroups r) (setGroup n x y)"
    using y(3) set_sureGroups[of r] d(2)
    by (auto simp: hasGroups_def setGroup_def map_of_filter_neq)
  ultimately show ?case using y(1) by auto
next
  case (Ahead r)
  from Ahead.prems have d: "distinct (groupsOf r)" by simp
  from Ahead.prems(2) obtain y where y: "matcher ic r x Some = Some y" "c (x\<lparr>captures := captures y\<rparr>) = Some z"
    by (auto split: option.splits)
  from Ahead.IH[OF d y(1)] have "sameOutside (groupsOf r) x y" "hasGroups (sureGroups r) y" by auto
  then have "sameOutside (groupsOf r) x (x\<lparr>captures := captures y\<rparr>)" "hasGroups (sureGroups r) (x\<lparr>captures := captures y\<rparr>)"
    by (auto simp: sameOutside_def hasGroups_def)
  with y(2) show ?case by auto
qed (auto dest!: oneChar_calls[where gs = "[]"] simp: hasGroups_def split: if_splits)


lemma matchRegex_capture:
  assumes "matchRegex ic r s = Some cs" "distinct (groupsOf r)" "n \<in> set (sureGroups r)"
  shows "\<exists>v. capture n cs = Some v"
proof -
  have search: "search ic r pre t = Some (pre', y) \<Longrightarrow> hasGroups (sureGroups r) y" for pre t pre' y
  proof (induction t arbitrary: pre)
    case Nil
    then have "matcher ic r \<lparr>behind = pre, rest = [], captures = []\<rparr> Some = Some y"
      by (auto simp: matchAt_def)
    from matcher_calls[OF assms(2) this] show ?case by auto
  next
    case (Cons a t)
    show ?case
    proof (cases "matchAt ic r pre (a # t)")
      case None
      with Cons show ?thesis by simp
    next
      case (Some y')
      with Cons.prems have "matcher ic r \<lparr>behind = pre, rest = a # t, captures = []\<rparr> Some = Some y"
        by (auto simp: matchAt_def)
      from matcher_calls[OF assms(2) this] show ?thesis by auto
    qed
  qed
  from assms(1) obtain pre' y where "search ic r [] s = Some (pre', y)" "cs = captures y"
    by (auto simp: matchRegex_def)
  with search[of "[]" s pre' y] assms(3) show ?thesis
    by (auto simp: hasGroups_def capture_def)
qed

text \<open>Every group that the source reads from a match took part in it.\<close>

lemma pattern_groups_distinct:
  "distinct (groupsOf functionPattern)" "distinct (groupsOf coordPattern)"
  "distinct (groupsOf textPattern)" "distinct (groupsOf typePattern)"
  "distinct (groupsOf thoughtPattern)" "distinct (groupsOf reflectionPattern)"
  "distinct (groupsOf summaryPattern)"
  by (simp_all add: functionPattern_def coordPattern_def numberPattern_def textPattern_def
      typePattern_def thoughtPattern_def reflectionPattern_def summaryPattern_def
      untilActionPattern_def actionMarkerPattern_def anyChar_def Seqs_def Lits_def str_def)

lemma pattern_groups_sure:
  "set (sureGroups functionPattern) = {1, 2}" "set (sureGroups coordPattern) = {1, 2}"
  "set (sureGroups textPattern) = {1}" "set (sureGroups typePattern) = {1}"
  "set (sureGroups thoughtPattern) = {1}" "set (sureGroups reflectionPattern) = {1, 2}"
  "set (sureGroups summaryPattern) = {1}"
  by (simp_all add: functionPattern_def coordPattern_def numberPattern_def textPattern_def
      typePattern_def thoughtPattern_def reflectionPattern_def summaryPattern_def
      untilActionPattern_def actionMarkerPattern_def anyChar_def Seqs_def Lits_def str_def)

lemma pattern_groups_present:
  "matchRegex False functionPattern s = Some cs \<Longrightarrow> \<exists>f a. capture 1 cs = Some f \<and> capture 2 cs = Some a"
  "matchRegex False coordPattern s = Some cs \<Longrightarrow> \<exists>a b. capture 1 cs = Some a \<and> capture 2 cs = Some b"
  "matchRegex True textPattern s = Some cs \<Longrightarrow> \<exists>v. capture 1 cs = Some v"
  "matchRegex True typePattern s = Some cs \<Longrightarrow> \<exists>v. capture 1 cs = Some v"
  "matchRegex False thoughtPattern s = Some cs \<Longrightarrow> \<exists>v. capture 1 cs = Some v"
  "matchRegex False reflectionPattern s = Some cs \<Longrightarrow> \<exists>r t. capture 1 cs = Some r \<and> capture 2 cs = Some t"
  "matchRegex False summaryPattern s = Some cs \<Longrightarrow> \<exists>v. capture 1 cs = Some v"
  using matchRegex_capture[of False functionPattern s cs 1] matchRegex_capture[of False functionPattern s cs 2]
    matchRegex_capture[of False coordPattern s cs 1] matchRegex_capture[of False coordPattern s cs 2]
    matchRegex_capture[of True textPattern s cs 1] matchRegex_capture[of True typePattern s cs 1]
    matchRegex_capture[of False thoughtPattern s cs 1]
    matchRegex_capture[of False reflectionPattern s cs 1] matchRegex_capture[of False reflectionPattern s cs 2]
    matchRegex_capture[of False summaryPattern s cs 1]
  by (simp_all add: pattern_groups_distinct pattern_groups_sure)

subsection \<open>The bound on the iterations of a quantifier\<close>

lemma guard_guard: "n \<le> n' \<Longrightarrow> guard n (guard n' c) = guard n c"
  by (auto simp: guard_def fun_eq_iff)

lemma guard_self [simp]: "guard (length (rest x)) c x = c x"
  by (simp add: guard_def)

lemma forwardD: "forward m \<Longrightarrow> m x c = m x (guard (length (rest x)) c)"
  by (simp add: forward_def)

lemma forward_cong:
  assumes "forward m" "\<And>y. length (rest y) \<le> length (rest x) \<Longrightarrow> c y = c' y"
  shows "m x c = m x c'"
proof -
  have "guard (length (rest x)) c = guard (length (rest x)) c'"
    using assms(2) by (auto simp: guard_def fun_eq_iff)
  then show ?thesis
    using forwardD[OF assms(1), of x c] forwardD[OF assms(1), of x c'] by simp
qed

lemma forward_below:
  assumes "forward m" "length (rest y) \<le> n"
  shows "m y (guard n c) = m y c"
  by (rule forward_cong[OF assms(1)]) (use assms(2) in \<open>simp add: guard_def\<close>)

lemma forwardI:
  assumes "\<And>x c. m x c = m x (guard (length (rest x)) c)"
  shows "forward m"
  using assms by (simp add: forward_def)

lemma forward_oneChar: "forward (oneChar P)"
  by (rule forwardI) (auto simp: oneChar_def advance_def guard_def split: list.splits)

lemma rest_clearGroups [simp]: "rest (clearGroups gs x) = rest x"
  by (simp add: clearGroups_def)

lemma rest_setGroup [simp]: "rest (setGroup n x y) = rest y"
  by (simp add: setGroup_def)

lemma repeat_Suc:
  "repeatMatcher (Suc fuel) m gs mn mx greedy x c =
     repeatStep (\<lambda>mn mx. repeatMatcher fuel m gs mn mx greedy) m gs mn mx greedy x c"
  by (simp add: repeatStep_def)

lemma repeatStep_cong:
  assumes "forward m" "c x = c' x"
    and "\<And>y. length (rest y) \<le> length (rest x) \<Longrightarrow> \<not> (mn = 0 \<and> length (rest y) = length (rest x)) \<Longrightarrow>
           R (mn - 1) (map_option (\<lambda>k. k - 1) mx) y c = R' (mn - 1) (map_option (\<lambda>k. k - 1) mx) y c'"
  shows "repeatStep R m gs mn mx greedy x c = repeatStep R' m gs mn mx greedy x c'"
proof -
  have E: "m (clearGroups gs x)
             (\<lambda>y. if mn = 0 \<and> length (rest y) = length (rest x) then None
                  else R (mn - 1) (map_option (\<lambda>k. k - 1) mx) y c) =
           m (clearGroups gs x)
             (\<lambda>y. if mn = 0 \<and> length (rest y) = length (rest x) then None
                  else R' (mn - 1) (map_option (\<lambda>k. k - 1) mx) y c')"
  proof (rule forward_cong[OF assms(1)])
    fix y :: mstate
    assume "length (rest y) \<le> length (rest (clearGroups gs x))"
    then have "length (rest y) \<le> length (rest x)" by simp
    then have eq: "\<not> (mn = 0 \<and> length (rest y) = length (rest x)) \<Longrightarrow>
        R (mn - 1) (map_option (\<lambda>k. k - 1) mx) y c = R' (mn - 1) (map_option (\<lambda>k. k - 1) mx) y c'"
      by (rule assms(3))
    show "(if mn = 0 \<and> length (rest y) = length (rest x) then None
           else R (mn - 1) (map_option (\<lambda>k. k - 1) mx) y c) =
          (if mn = 0 \<and> length (rest y) = length (rest x) then None
           else R' (mn - 1) (map_option (\<lambda>k. k - 1) mx) y c')"
    proof (cases "mn = 0 \<and> length (rest y) = length (rest x)")
      case True
      then show ?thesis by (simp only: if_P)
    next
      case False
      show ?thesis
        by (simp only: if_not_P[OF False] eq[OF False])
    qed
  qed
  show ?thesis
    unfolding repeatStep_def Let_def E assms(2) by (rule refl)
qed

lemma forward_repeat:
  assumes "forward m"
  shows "forward (repeatMatcher fuel m gs mn mx greedy)"
proof (induction fuel arbitrary: mn mx)
  case 0
  show ?case by (rule forwardI) simp
next
  case (Suc fuel)
  show ?case
  proof (rule forwardI)
    fix x :: mstate and c :: mcont
    show "repeatMatcher (Suc fuel) m gs mn mx greedy x c =
          repeatMatcher (Suc fuel) m gs mn mx greedy x (guard (length (rest x)) c)"
      unfolding repeat_Suc
    proof (rule repeatStep_cong[OF assms])
      show "c x = guard (length (rest x)) c x" by simp
    next
      fix y :: mstate
      assume "length (rest y) \<le> length (rest x)"
      then show "repeatMatcher fuel m gs (mn - 1) (map_option (\<lambda>k. k - 1) mx) greedy y c =
         repeatMatcher fuel m gs (mn - 1) (map_option (\<lambda>k. k - 1) mx) greedy y (guard (length (rest x)) c)"
        using forward_below[OF Suc, of y "length (rest x)"] by simp
    qed
  qed
qed

lemma forward_matcherK: "forward (matcherK k ic r)"
proof (induction r)
  case (Seq r1 r2)
  show ?case
  proof (rule forwardI)
    fix x c
    have "matcherK k ic r1 x (\<lambda>y. matcherK k ic r2 y c) =
          matcherK k ic r1 x (\<lambda>y. matcherK k ic r2 y (guard (length (rest x)) c))"
      by (rule forward_cong[OF Seq(1)]) (simp add: forward_below[OF Seq(2)])
    then show "matcherK k ic (Seq r1 r2) x c = matcherK k ic (Seq r1 r2) x (guard (length (rest x)) c)"
      by simp
  qed
next
  case (Alt r1 r2)
  show ?case
  proof (rule forwardI)
    fix x c
    have a: "matcherK k ic r1 x (guard (length (rest x)) c) = matcherK k ic r1 x c"
      and b: "matcherK k ic r2 x (guard (length (rest x)) c) = matcherK k ic r2 x c"
      using forwardD[OF Alt(1), of x c] forwardD[OF Alt(2), of x c] by simp_all
    show "matcherK k ic (Alt r1 r2) x c = matcherK k ic (Alt r1 r2) x (guard (length (rest x)) c)"
      unfolding matcherK.simps a b by (rule refl)
  qed
next
  case (Rep mn mx greedy r)
  show ?case
    by (rule forwardI) (simp add: forwardD[OF forward_repeat[OF Rep], symmetric])
next
  case (Grp n r)
  show ?case
  proof (rule forwardI)
    fix x c
    have "matcherK k ic r x (\<lambda>y. c (setGroup n x y)) =
          matcherK k ic r x (\<lambda>y. guard (length (rest x)) c (setGroup n x y))"
      by (rule forward_cong[OF Grp]) (simp add: guard_def)
    then show "matcherK k ic (Grp n r) x c = matcherK k ic (Grp n r) x (guard (length (rest x)) c)"
      by simp
  qed
next
  case (Ahead r)
  show ?case
    by (rule forwardI) (simp add: guard_def split: option.splits)
next
  case (Chr a)
  show ?case
    using forward_oneChar[of "\<lambda>d. a \<in> set (variants ic d)"] by (simp add: forward_def)
next
  case Dot
  show ?case
    using forward_oneChar[of "\<lambda>d. \<not> isLineTerminator d"] by (simp add: forward_def)
next
  case (Cls neg items)
  show ?case
    using forward_oneChar[of "\<lambda>d. neg \<noteq> (\<exists>i \<in> set items. csetMember ic d i)"]
    by (simp add: forward_def)
qed (auto intro!: forwardI simp: guard_def)

lemma repeat_more_fuel:
  assumes "forward m"
  shows "Suc (mn + length (rest x)) \<le> fuel \<Longrightarrow>
         repeatMatcher (Suc fuel) m gs mn mx greedy x c = repeatMatcher fuel m gs mn mx greedy x c"
proof (induction fuel arbitrary: mn mx x c)
  case 0
  then show ?case by simp
next
  case (Suc fuel)
  have "repeatStep (\<lambda>mn mx. repeatMatcher (Suc fuel) m gs mn mx greedy) m gs mn mx greedy x c =
        repeatStep (\<lambda>mn mx. repeatMatcher fuel m gs mn mx greedy) m gs mn mx greedy x c"
  proof (rule repeatStep_cong[OF assms refl])
    fix y :: mstate
    assume le: "length (rest y) \<le> length (rest x)"
      and no: "\<not> (mn = 0 \<and> length (rest y) = length (rest x))"
    with Suc.prems have "Suc ((mn - 1) + length (rest y)) \<le> fuel"
      by (cases "mn = 0") auto
    from Suc.IH[OF this]
    show "repeatMatcher (Suc fuel) m gs (mn - 1) (map_option (\<lambda>k. k - 1) mx) greedy y c =
          repeatMatcher fuel m gs (mn - 1) (map_option (\<lambda>k. k - 1) mx) greedy y c" .
  qed
  then show ?case
    by (simp only: repeat_Suc[of "Suc fuel", symmetric] repeat_Suc[of fuel, symmetric])
qed

lemma repeat_extra_fuel:
  assumes "forward m"
  shows "repeatMatcher (Suc (mn + length (rest x) + k)) m gs mn mx greedy x c =
         repeatMatcher (Suc (mn + length (rest x))) m gs mn mx greedy x c"
proof (induction k)
  case 0
  show ?case by simp
next
  case (Suc k)
  have "Suc (mn + length (rest x)) \<le> Suc (mn + length (rest x) + k)" by simp
  from repeat_more_fuel[OF assms this, of gs mx greedy c] Suc show ?case
    by (simp del: repeatMatcher.simps)
qed

text \<open>Allowing a quantifier more iterations than its bound never changes a result.\<close>

lemma matcherK_matcher: "matcherK k ic r = matcher ic r"
proof (induction r)
  case (Rep mn mx greedy r)
  have "forward (matcher ic r)"
    using forward_matcherK[of k ic r] Rep by simp
  then show ?case
    by (simp add: fun_eq_iff Rep repeat_extra_fuel del: repeatMatcher.simps)
qed (auto intro!: ext cong: option.case_cong)

subsection \<open>Splitting at runs of newlines\<close>

lemma clearGroups_Nil [simp]: "clearGroups [] x = x"
  by (simp add: clearGroups_def)

lemma repeat_newlines:
  "length (rest x) < fuel \<Longrightarrow>
   repeatMatcher fuel (matcher False (Chr 10)) [] 0 None True x Some =
     Some (x\<lparr>behind := rev (takeWhile (\<lambda>c. c = 10) (rest x)) @ behind x,
             rest := dropWhile (\<lambda>c. c = 10) (rest x)\<rparr>)"
proof (induction fuel arbitrary: x)
  case 0
  then show ?case by simp
next
  case (Suc fuel)
  show ?case
  proof (cases "rest x")
    case Nil
    then show ?thesis
      by (simp add: oneChar_def)
  next
    case (Cons d ds)
    show ?thesis
    proof (cases "d = 10")
      case False
      with Cons show ?thesis
        by (simp add: oneChar_def variants_def)
    next
      case True
      have "length (rest (advance x)) < fuel"
        using Suc.prems Cons by (simp add: advance_def)
      from Suc.IH[OF this] True Cons show ?thesis
        by (simp add: oneChar_def variants_def advance_def)
    qed
  qed
qed

lemma repeat_newlines1:
  assumes "length (rest x) < fuel"
  shows "repeatMatcher (Suc fuel) (matcher False (Chr 10)) [] 1 None True x Some =
     (case rest x of
        [] \<Rightarrow> None
      | c # cs \<Rightarrow>
          if c = 10
          then Some (x\<lparr>behind := rev (takeWhile (\<lambda>c. c = 10) cs) @ 10 # behind x,
                       rest := dropWhile (\<lambda>c. c = 10) cs\<rparr>)
          else None)"
proof (cases "rest x")
  case Nil
  then show ?thesis
    by (simp add: oneChar_def)
next
  case (Cons c cs)
  show ?thesis
  proof (cases "c = 10")
    case False
    with Cons show ?thesis
      by (simp add: oneChar_def variants_def)
  next
    case True
    have "length (rest (advance x)) < fuel"
      using assms Cons by (simp add: advance_def)
    from repeat_newlines[OF this] True Cons show ?thesis
      by (simp add: oneChar_def variants_def advance_def)
  qed
qed

lemma matchAt_newlines:
  "matchAt False newlinesPattern pre s =
     (case s of
        [] \<Rightarrow> None
      | c # cs \<Rightarrow>
          if c = 10
          then Some \<lparr>behind = rev (takeWhile (\<lambda>c. c = 10) cs) @ 10 # pre,
                     rest = dropWhile (\<lambda>c. c = 10) cs, captures = []\<rparr>
          else None)"
proof -
  let ?x = "\<lparr>behind = pre, rest = s, captures = []\<rparr>"
  have "matchAt False newlinesPattern pre s =
          repeatMatcher (Suc (1 + length (rest ?x))) (matcher False (Chr 10)) [] 1 None True ?x Some"
    by (simp only: matchAt_def newlinesPattern_def newline_def matcher.simps groupsOf.simps)
  also have "\<dots> = (case rest ?x of
        [] \<Rightarrow> None
      | c # cs \<Rightarrow>
          if c = 10
          then Some (?x\<lparr>behind := rev (takeWhile (\<lambda>c. c = 10) cs) @ 10 # behind ?x,
                        rest := dropWhile (\<lambda>c. c = 10) cs\<rparr>)
          else None)"
    by (rule repeat_newlines1) simp
  finally show ?thesis
    by (simp split: list.splits)
qed

lemma splitChar_nonempty: "splitChar a s \<noteq> []"
  by (induction s) (auto split: list.splits)

lemma splitChar_skip_newlines:
  "filter (\<lambda>seg. \<not> list_all isWhiteSpace seg) (splitChar 10 (dropWhile (\<lambda>c. c = 10) s)) =
   filter (\<lambda>seg. \<not> list_all isWhiteSpace seg) (splitChar 10 s)"
  by (induction s) auto

lemma splitLoop_newlines:
  "filter (\<lambda>seg. \<not> list_all isWhiteSpace seg) (splitLoop False newlinesPattern acc pre s) =
   filter (\<lambda>seg. \<not> list_all isWhiteSpace seg)
     (case splitChar 10 s of p # ps \<Rightarrow> (rev acc @ p) # ps | [] \<Rightarrow> [])"
proof (induction "length s" arbitrary: s acc pre rule: less_induct)
  case less
  show ?case
  proof (cases s)
    case Nil
    then show ?thesis by simp
  next
    case (Cons c cs)
    show ?thesis
    proof (cases "c = 10")
      case False
      have "length cs < length s" using Cons by simp
      from less[OF this, of "c # acc" "c # pre"] False Cons show ?thesis
        by (cases "splitChar 10 cs") (simp_all add: matchAt_newlines splitChar_nonempty)
    next
      case True
      let ?d = "dropWhile (\<lambda>c. c = 10) cs"
      have len: "length ?d < length s"
        using Cons length_dropWhile_le[of "\<lambda>c. c = 10" cs] by simp
      have "splitLoop False newlinesPattern acc pre s =
              rev acc # splitLoop False newlinesPattern [] (rev (takeWhile (\<lambda>c. c = 10) cs) @ 10 # pre) ?d"
        using True Cons len by (simp add: matchAt_newlines)
      moreover have "filter (\<lambda>seg. \<not> list_all isWhiteSpace seg)
           (splitLoop False newlinesPattern [] (rev (takeWhile (\<lambda>c. c = 10) cs) @ 10 # pre) ?d)
           = filter (\<lambda>seg. \<not> list_all isWhiteSpace seg) (splitChar 10 cs)"
        using less[OF len, of "[]"] splitChar_skip_newlines[of cs]
        by (cases "splitChar 10 ?d") (simp_all add: splitChar_nonempty)
      ultimately show ?thesis
        using True Cons by simp
    qed
  qed
qed

lemma split_newlines_lines:
  "filter (\<lambda>seg. \<not> list_all isWhiteSpace seg) (splitRegex False newlinesPattern s) =
   filter (\<lambda>seg. \<not> list_all isWhiteSpace seg) (splitChar 10 s)"
proof (cases "s = []")
  case True
  then show ?thesis
    by (simp add: splitRegex_def matchAt_newlines)
next
  case False
  then show ?thesis
    using splitLoop_newlines[of "[]" "[]" s]
    by (cases "splitChar 10 s") (simp_all add: splitRegex_def)
qed

subsection \<open>The pipeline, token by token\<close>

lemma parseActionVlm_length:
  "length (parseActionVlm lc sh txt fs md sc sf mv) = length (allActions (actionStrOf md txt))"
  by (simp add: parseActionVlm_def Let_def)

lemma all_dropWhile_Nil: "(\<forall>x \<in> set (dropWhile P s). P x) = (\<forall>x \<in> set s. P x)"
  by (induction s) auto

lemma trim_empty_iff: "(trim s = []) = list_all isWhiteSpace s"
  by (simp add: trim_def trimEnd_def trimStart_def all_dropWhile_Nil list_all_iff)

text \<open>
  Claim C4.  For every text and every parameter set, the number of entries of the
  result is the number of pieces of the action-string, split at runs of one or more
  newlines, that are not made of white space only.  It is also the number of lines of
  the action-string with a character that is not white space.  The result is empty
  exactly when there is no such piece.
\<close>

theorem parsed_action_count:
  "length (parseActionVlm lc sh txt fs md sc sf mv) =
     length (filter (\<lambda>seg. \<not> list_all isWhiteSpace seg)
               (splitRegex False (Rep 1 None True (Chr 10)) (actionStrOf md txt)))
   \<and> length (parseActionVlm lc sh txt fs md sc sf mv) =
     length (filter (\<lambda>seg. \<not> list_all isWhiteSpace seg) (splitChar 10 (actionStrOf md txt)))
   \<and> ((parseActionVlm lc sh txt fs md sc sf mv = []) =
        (filter (\<lambda>seg. \<not> list_all isWhiteSpace seg)
               (splitRegex False (Rep 1 None True (Chr 10)) (actionStrOf md txt)) = []))"
proof -
  have 1: "length (parseActionVlm lc sh txt fs md sc sf mv) =
     length (filter (\<lambda>seg. \<not> list_all isWhiteSpace seg)
               (splitRegex False (Rep 1 None True (Chr 10)) (actionStrOf md txt)))"
    by (simp add: parseActionVlm_length allActions_def trim_empty_iff newlinesPattern_def newline_def)
  moreover have "length (parseActionVlm lc sh txt fs md sc sf mv) =
     length (filter (\<lambda>seg. \<not> list_all isWhiteSpace seg) (splitChar 10 (actionStrOf md txt)))"
    using 1 split_newlines_lines[of "actionStrOf md txt"]
    by (simp add: newlinesPattern_def newline_def)
  ultimately show ?thesis
    by (metis length_0_conv)
qed


text \<open>
  Claim C5.  A token that matches neither the call pattern nor any word of the
  vocabulary gives an entry with the empty string as \<open>action_type\<close> and no
  \<open>action_inputs\<close>; the result still has one entry for each token, each of them the
  entry of its own token.
\<close>

theorem unparsable_token_is_local:
  assumes "i < length (allActions (actionStrOf md txt))"
    and "matchRegex False functionPattern (preprocess (tokenText (allActions (actionStrOf md txt) ! i))) = None"
    and "\<forall>act \<in> set commonActions.
           \<not> includesStr (lc (preprocess (tokenText (allActions (actionStrOf md txt) ! i)))) act"
  shows "length (parseActionVlm lc sh txt fs md sc sf mv) = length (allActions (actionStrOf md txt))
       \<and> action_type (parseActionVlm lc sh txt fs md sc sf mv ! i) = []
       \<and> action_inputs (parseActionVlm lc sh txt fs md sc sf mv ! i) = []
       \<and> (\<forall>j < length (allActions (actionStrOf md txt)).
            parseActionVlm lc sh txt fs md sc sf mv ! j =
            parseToken lc mv
              (if mv = V1_5 \<and> hasScreen sc
               then smartResizeForV15 (height (the sc)) (width (the sc)) (MAX_RATIO sh)
                      (IMAGE_FACTOR sh) (MIN_PIXELS sh) (MAX_PIXELS_V1_5 sh)
               else None)
              fs sc sf (reflectionOf md txt) (thoughtOf md txt)
              (allActions (actionStrOf md txt) ! j))"
proof -
  let ?tok = "allActions (actionStrOf md txt) ! i"
  have "find (\<lambda>act. includesStr (lc (preprocess (tokenText ?tok))) act) commonActions = None"
    using assms(3) by (simp add: find_None_iff)
  with assms(2) have "parseAction lc (tokenText ?tok) = None"
    by (simp add: parseAction_def heuristic_def Let_def)
  with assms(1) show ?thesis
    by (simp add: parseActionVlm_def parseToken_def Let_def)
qed

text \<open>
  Claim C8.  For a token that does not match the call pattern, the function name
  returned is the first word of the vocabulary, in the order of the vocabulary, that
  occurs in the lower-cased token; the parser returns null exactly when no word occurs.
\<close>

theorem heuristic_vocabulary_order:
  assumes "matchRegex False functionPattern (preprocess tok) = None"
  shows "map_option functionName (parseAction lc tok) =
           find (\<lambda>act. includesStr (lc (preprocess tok)) act)
             [str ''click'', str ''type'', str ''drag'', str ''scroll'', str ''wait'', str ''hover'',
              str ''finished'', str ''call_user'']
       \<and> ((parseAction lc tok = None) =
            (find (\<lambda>act. includesStr (lc (preprocess tok)) act)
             [str ''click'', str ''type'', str ''drag'', str ''scroll'', str ''wait'', str ''hover'',
              str ''finished'', str ''call_user''] = None))"
  using assms
  by (simp add: parseAction_def heuristic_def Let_def commonActions_def split: option.splits)

subsection \<open>Examples\<close>

lemma tokens_unparsable_example:
  "allActions (actionStrOf BC (str ''???'' @ [newline, newline] @ str ''wait()'')) = [str ''???'', str ''wait()'']"
  by (simp add: js_eval)

lemma unparsable_example:
  "matchRegex False functionPattern (preprocess (tokenText (str ''???''))) = None"
  "\<forall>act \<in> set commonActions. \<not> includesStr (asciiLower (preprocess (tokenText (str ''???'')))) act"
  by (simp_all add: js_eval)

lemma wait_token_example:
  "parseToken lc mv rf fs sc sf r t (str ''wait()'') =
     \<lparr>reflection = r, thought = (case t of None \<Rightarrow> [] | Some v \<Rightarrow> v), action_type = str ''wait'',
      action_inputs = []\<rparr>"
  by (simp add: js_eval)

theorem unparsable_token_is_local_witness:
  "length (parseActionVlm asciiLower sampleShared (str ''???'' @ [newline, newline] @ str ''wait()'')
             (Fin 1000, Fin 1000) BC None None V1_0) = 2
   \<and> action_type (parseActionVlm asciiLower sampleShared (str ''???'' @ [newline, newline] @ str ''wait()'')
             (Fin 1000, Fin 1000) BC None None V1_0 ! 0) = []
   \<and> action_inputs (parseActionVlm asciiLower sampleShared (str ''???'' @ [newline, newline] @ str ''wait()'')
             (Fin 1000, Fin 1000) BC None None V1_0 ! 0) = []
   \<and> action_type (parseActionVlm asciiLower sampleShared (str ''???'' @ [newline, newline] @ str ''wait()'')
             (Fin 1000, Fin 1000) BC None None V1_0 ! 1) = str ''wait''"
proof -
  let ?txt = "str ''???'' @ [newline, newline] @ str ''wait()''"
  have i: "0 < length (allActions (actionStrOf BC ?txt))"
    by (simp only: tokens_unparsable_example) simp
  have g: "matchRegex False functionPattern (preprocess (tokenText (allActions (actionStrOf BC ?txt) ! 0))) = None"
    by (simp only: tokens_unparsable_example nth_Cons_0 unparsable_example)
  have h: "\<forall>act \<in> set commonActions.
      \<not> includesStr (asciiLower (preprocess (tokenText (allActions (actionStrOf BC ?txt) ! 0)))) act"
    using unparsable_example(2) by (simp only: tokens_unparsable_example nth_Cons_0)
  let ?P = "parseActionVlm asciiLower sampleShared ?txt (Fin 1000, Fin 1000) BC None None V1_0"
  let ?A = "allActions (actionStrOf BC ?txt)"
  from unparsable_token_is_local[of 0 BC "?txt" asciiLower sampleShared "(Fin 1000, Fin 1000)"
      None None V1_0, OF i g h]
  have L: "length ?P = length ?A" and T: "action_type (?P ! 0) = []" and I: "action_inputs (?P ! 0) = []"
    and J: "\<forall>j < length ?A. ?P ! j =
              parseToken asciiLower V1_0 None (Fin 1000, Fin 1000) None None
                (reflectionOf BC ?txt) (thoughtOf BC ?txt) (?A ! j)"
    by simp_all
  have len: "length ?A = 2"
    by (simp only: tokens_unparsable_example) simp
  have "?A ! 1 = str ''wait()''"
    by (simp only: tokens_unparsable_example) simp
  moreover from J len have "?P ! 1 = parseToken asciiLower V1_0 None (Fin 1000, Fin 1000) None None
                (reflectionOf BC ?txt) (thoughtOf BC ?txt) (?A ! 1)"
    by simp
  ultimately have "action_type (?P ! 1) = str ''wait''"
    by (simp only: wait_token_example PredictionParsed.simps)
  with L len T I show ?thesis
    by simp
qed

theorem heuristic_vocabulary_order_witness:
  "matchRegex False functionPattern (preprocess (str ''Type it, then CLICK'')) = None
   \<and> map_option functionName (parseAction asciiLower (str ''Type it, then CLICK'')) = Some (str ''click'')"
proof -
  have h: "matchRegex False functionPattern (preprocess (str ''Type it, then CLICK'')) = None"
    by (simp add: js_eval)
  have "find (\<lambda>act. includesStr (asciiLower (preprocess (str ''Type it, then CLICK''))) act)
             [str ''click'', str ''type'', str ''drag'', str ''scroll'', str ''wait'', str ''hover'',
              str ''finished'', str ''call_user''] = Some (str ''click'')"
    by (simp add: js_eval)
  with heuristic_vocabulary_order[OF h, of asciiLower] h show ?thesis
    by simp
qed


subsection \<open>The thought of the o1 format\<close>

lemma o1_patterns_groups:
  "distinct (groupsOf o1ThoughtPattern)" "1 \<in> set (sureGroups o1ThoughtPattern)"
  "distinct (groupsOf o1SummaryPattern)" "1 \<in> set (sureGroups o1SummaryPattern)"
  "distinct (groupsOf o1ActionPattern)" "1 \<in> set (sureGroups o1ActionPattern)"
  by (simp_all add: o1ThoughtPattern_def o1SummaryPattern_def o1ActionPattern_def Seqs_def Lits_def str_def)

text \<open>
  Claim C10.  In the o1 format the thought of every entry is the text composed by the
  template: the thought part, a newline, \<^verbatim>\<open><Action_Summary>\<close>, a newline, and the summary
  part.  A part is the first group of its pattern when the pattern matches the trimmed
  text, and the text \<^verbatim>\<open>null\<close> when it does not.  The thought is never empty, so the
  fallback to the empty string is never taken.
\<close>

theorem o1_thought_template:
  assumes "p \<in> set (parseActionVlm lc sh txt fs O1 sc sf mv)"
  shows "\<exists>t s. thought p = t @ [newline] @ str ''<Action_Summary>'' @ [newline] @ s
           \<and> (case matchRegex False o1ThoughtPattern (trim txt) of
                 None \<Rightarrow> t = str ''null'' | Some cs \<Rightarrow> capture 1 cs = Some t)
           \<and> (case matchRegex False o1SummaryPattern (trim txt) of
                 None \<Rightarrow> s = str ''null'' | Some cs \<Rightarrow> capture 1 cs = Some s)
           \<and> thought p \<noteq> []"
proof -
  let ?t = "interpolate (groupOf 1 (matchRegex False o1ThoughtPattern (trim txt)))"
  let ?s = "interpolate (groupOf 1 (matchRegex False o1SummaryPattern (trim txt)))"
  from assms have eq: "thought p = ?t @ [newline] @ str ''<Action_Summary>'' @ [newline] @ ?s"
    by (auto simp: parseActionVlm_def parseToken_def thoughtOf_def o1Thought_def Let_def)
  then have "thought p \<noteq> []"
    by simp
  moreover note eq
  moreover have "case matchRegex False o1ThoughtPattern (trim txt) of
                 None \<Rightarrow> ?t = str ''null'' | Some cs \<Rightarrow> capture 1 cs = Some ?t"
    using matchRegex_capture[OF _ o1_patterns_groups(1,2)]
    by (fastforce simp: interpolate_def groupOf_def split: option.splits)
  moreover have "case matchRegex False o1SummaryPattern (trim txt) of
                 None \<Rightarrow> ?s = str ''null'' | Some cs \<Rightarrow> capture 1 cs = Some ?s"
    using matchRegex_capture[OF _ o1_patterns_groups(3,4)]
    by (fastforce simp: interpolate_def groupOf_def split: option.splits)
  ultimately show ?thesis by blast
qed

lemma o1_example:
  "parseActionVlm lc sh (str ''x'' @ [newline] @ str ''Action: wait()</Output>'') fs O1 None None V1_0 =
     [\<lparr>reflection = None,
       thought = str ''null'' @ [newline] @ str ''<Action_Summary>'' @ [newline] @ str ''null'',
       action_type = str ''wait'', action_inputs = []\<rparr>]"
  by (simp add: js_eval)

lemma o1_example_nomatch:
  "matchRegex False o1ThoughtPattern (trim (str ''x'' @ [newline] @ str ''Action: wait()</Output>'')) = None"
  "matchRegex False o1SummaryPattern (trim (str ''x'' @ [newline] @ str ''Action: wait()</Output>'')) = None"
  by (simp_all add: js_eval)

theorem o1_thought_template_witness:
  "\<lparr>reflection = None,
     thought = str ''null'' @ [newline] @ str ''<Action_Summary>'' @ [newline] @ str ''null'',
     action_type = str ''wait'', action_inputs = []\<rparr>
     \<in> set (parseActionVlm asciiLower sampleShared (str ''x'' @ [newline] @ str ''Action: wait()</Output>'')
              (Fin 1000, Fin 1000) O1 None None V1_0)
   \<and> (\<exists>t s. str ''null'' @ [newline] @ str ''<Action_Summary>'' @ [newline] @ str ''null''
              = t @ [newline] @ str ''<Action_Summary>'' @ [newline] @ s
         \<and> t = str ''null'' \<and> s = str ''null'')"
proof -
  let ?p = "\<lparr>reflection = None,
     thought = str ''null'' @ [newline] @ str ''<Action_Summary>'' @ [newline] @ str ''null'',
     action_type = str ''wait'', action_inputs = []\<rparr>"
  have m: "?p \<in> set (parseActionVlm asciiLower sampleShared (str ''x'' @ [newline] @ str ''Action: wait()</Output>'')
              (Fin 1000, Fin 1000) O1 None None V1_0)"
    by (simp only: o1_example) simp
  from o1_thought_template[OF m] m show ?thesis
    by (simp add: o1_example_nomatch)
qed

subsection \<open>Boxes and coordinates\<close>

lemma floatNumbers_100_200:
  "floatNumbersOf V1_0 rf (fw, fh) (str ''(100,200)'') =
     [jsDiv (Fin 100) fw, jsDiv (Fin 200) fh, jsDiv (Fin 100) fw, jsDiv (Fin 200) fh]"
  by (simp add: js_eval)

text \<open>
  Claim C6.  For the box value \<^verbatim>\<open>(100,200)\<close> the numbers at even positions are divided by
  the width factor and those at odd positions by the height factor, and the two numbers
  of the point are repeated to make four.  With the factors (1000, 1000) and no screen
  context the value stored for \<^verbatim>\<open>start_box\<close> is the JSON text \<^verbatim>\<open>[0.1,0.2,0.1,0.2]\<close>, and no
  coordinates are stored.
\<close>

theorem box_point_normalised:
  "floatNumbersOf V1_0 rf (fw, fh) (str ''(100,200)'') =
     [jsDiv (Fin 100) fw, jsDiv (Fin 200) fh, jsDiv (Fin 100) fw, jsDiv (Fin 200) fh]
   \<and> actionParser lc sh
        \<lparr>prediction = str ''click(start_box='' @ [apostrophe] @ str ''(100,200)'' @ [apostrophe] @ str '')'',
         factor = Both (Fin 1000) (Fin 1000), screenContext = None, scaleFactor = sf,
         mode = None, modelVer = None\<rparr>
     = [\<lparr>reflection = None, thought = [], action_type = str ''click'',
         action_inputs =
           [(str ''start_box'', JsonVal [JNumber (1 / 10), JNumber (2 / 10), JNumber (1 / 10), JNumber (2 / 10)])]\<rparr>]"
proof -
  have "actionParser lc sh
        \<lparr>prediction = str ''click(start_box='' @ [apostrophe] @ str ''(100,200)'' @ [apostrophe] @ str '')'',
         factor = Both (Fin 1000) (Fin 1000), screenContext = None, scaleFactor = sf,
         mode = None, modelVer = None\<rparr>
     = [\<lparr>reflection = None, thought = [], action_type = str ''click'',
         action_inputs =
           [(str ''start_box'', JsonVal [JNumber (1 / 10), JNumber (2 / 10), JNumber (1 / 10), JNumber (2 / 10)])]\<rparr>]"
    by (simp add: js_eval)
  with floatNumbers_100_200 show ?thesis
    by simp
qed






text \<open>
  Claim C1.  The claim asks for an empty array of coordinates whenever one of the
  numbers of a box is not a finite number.  The code tests the four numbers with
  \<^verbatim>\<open>isNumber\<close>, which NaN passes: for the box \<^verbatim>\<open>(abc,200)\<close> on a screen of 1000 by 800 the
  value stored under \<^verbatim>\<open>start_coords\<close> is [NaN, 160], not the empty array.
\<close>

theorem nan_box_keeps_coordinates:
  "actionParser lc sh
     \<lparr>prediction = str ''click(start_box='' @ [apostrophe] @ str ''(abc,200)'' @ [apostrophe] @ str '')'',
      factor = Both (Fin 1000) (Fin 1000),
      screenContext = Some \<lparr>width = Fin 1000, height = Fin 800\<rparr>, scaleFactor = None,
      mode = None, modelVer = None\<rparr>
   = [\<lparr>reflection = None, thought = [], action_type = str ''click'',
       action_inputs =
         [(str ''start_box'', JsonVal [JNull, JNumber (200 / 1000), JNull, JNumber (200 / 1000)]),
          (str ''start_coords'', NumsVal [NaN, Fin 160])]\<rparr>]"
  by (simp add: js_eval)

subsection \<open>The smart resize\<close>






subsection \<open>The action-string of the bc format\<close>

lemma startsWith_iff: "startsWith s p = (\<exists>t. s = p @ t)"
proof
  assume "startsWith s p"
  then have "s = p @ drop (length p) s"
    by (metis append_take_drop_id startsWith_def)
  then show "\<exists>t. s = p @ t" ..
next
  assume "\<exists>t. s = p @ t"
  then show "startsWith s p"
    by (auto simp: startsWith_def)
qed

lemma matcher_Lits:
  "matcher False (Lits p) x c =
     (if startsWith (rest x) p
      then c (x\<lparr>behind := rev p @ behind x, rest := drop (length p) (rest x)\<rparr>)
      else None)"
proof (induction p arbitrary: x)
  case Nil
  then show ?case by (simp add: Lits_def startsWith_def)
next
  case (Cons a p)
  have "Lits (a # p) = Seq (Chr a) (Lits p)"
    by (simp add: Lits_def)
  then show ?case
    by (cases "rest x") (auto simp: Cons.IH oneChar_def advance_def variants_def startsWith_def)
qed

lemma markerAt_iff: "markerAt s i = (\<exists>t. drop i s = marker1 @ t \<or> drop i s = marker2 @ t)"
  by (auto simp: markerAt_def startsWith_iff marker1_def marker2_def)

lemma matchAt_marker_Some:
  "matchAt False actionMarkerPattern pre (marker1 @ t) =
     Some \<lparr>behind = rev marker1 @ pre, rest = t, captures = []\<rparr>"
  "matchAt False actionMarkerPattern pre (marker2 @ t) =
     Some \<lparr>behind = rev marker2 @ pre, rest = t, captures = []\<rparr>"
  by (simp_all add: matchAt_def actionMarkerPattern_def marker1_def marker2_def str_def ch_def
      Lits_def oneChar_def advance_def variants_def fullwidthColon_def)

lemma matchAt_marker_None:
  assumes "matchAt False actionMarkerPattern pre s = Some y"
  shows "\<exists>t. s = marker1 @ t \<or> s = marker2 @ t"
proof -
  from assms obtain u where u: "s = str ''Action'' @ u"
    by (auto simp: matchAt_def actionMarkerPattern_def matcher_Lits startsWith_iff split: if_splits)
  with assms obtain d t where "u = d # t" "d = ch CHR '':'' \<or> d = fullwidthColon"
    by (cases u) (auto simp: matchAt_def actionMarkerPattern_def matcher_Lits startsWith_def
        oneChar_def variants_def str_def split: if_splits)
  with u show ?thesis
    by (auto simp: marker1_def marker2_def str_def ch_def)
qed

lemma matchAt_marker:
  "matchAt False actionMarkerPattern pre s =
     (if markerAt s 0 then Some \<lparr>behind = rev (take 7 s) @ pre, rest = drop 7 s, captures = []\<rparr>
      else None)"
proof (cases "markerAt s 0")
  case True
  then obtain t where "s = marker1 @ t \<or> s = marker2 @ t"
    by (auto simp: markerAt_iff)
  moreover have "length marker1 = 7" "length marker2 = 7"
    by (simp_all add: marker1_def marker2_def str_def)
  ultimately show ?thesis
    using True by (auto simp: matchAt_marker_Some)
next
  case False
  then have "matchAt False actionMarkerPattern pre s = None"
    using matchAt_marker_None[of pre s] by (cases "matchAt False actionMarkerPattern pre s") (auto simp: markerAt_iff)
  with False show ?thesis by simp
qed

lemma markerAt_Suc [simp]: "markerAt (c # cs) (Suc i) = markerAt cs i"
  by (simp add: markerAt_def)

lemma markerAt_Nil [simp]: "\<not> markerAt [] i"
  by (simp add: markerAt_def startsWith_def str_def)

lemma markerAt_drop: "markerAt (drop k s) i = markerAt s (i + k)"
  by (simp add: markerAt_def add.commute)

lemma marker_no_overlap:
  assumes "markerAt s 0" "0 < j" "j < 7"
  shows "\<not> markerAt s j"
proof -
  from assms(1) obtain t where s: "s = marker1 @ t \<or> s = marker2 @ t"
    by (auto simp: markerAt_iff)
  from assms(2,3) have "j = 1 \<or> j = 2 \<or> j = 3 \<or> j = 4 \<or> j = 5 \<or> j = 6"
    by arith
  then show ?thesis
    using s
    by (elim disjE) (simp_all add: markerAt_iff marker1_def marker2_def str_def fullwidthColon_def)
qed


lemma splitLoop_nonempty: "splitLoop ic r acc pre s \<noteq> []"
  by (induction ic r acc pre s rule: splitLoop.induct) (auto split: option.splits)

lemma includesStr_iff: "includesStr s p = (\<exists>i. startsWith (drop i s) p)"
proof (induction s)
  case Nil
  then show ?case by (auto simp: startsWith_def)
next
  case (Cons c cs)
  have "(\<exists>i. startsWith (drop i (c # cs)) p) = (startsWith (c # cs) p \<or> (\<exists>i. startsWith (drop i cs) p))"
  proof
    assume "\<exists>i. startsWith (drop i (c # cs)) p"
    then obtain i where i: "startsWith (drop i (c # cs)) p" ..
    then show "startsWith (c # cs) p \<or> (\<exists>i. startsWith (drop i cs) p)"
      by (cases i) auto
  next
    assume "startsWith (c # cs) p \<or> (\<exists>i. startsWith (drop i cs) p)"
    then show "\<exists>i. startsWith (drop i (c # cs)) p"
    proof
      assume "startsWith (c # cs) p"
      then have "startsWith (drop 0 (c # cs)) p" by simp
      then show ?thesis ..
    next
      assume "\<exists>i. startsWith (drop i cs) p"
      then obtain i where "startsWith (drop (Suc i) (c # cs)) p" by auto
      then show ?thesis ..
    qed
  qed
  with Cons show ?case by simp
qed

lemma includes_marker_iff:
  "(includesStr s (str ''Action:'') \<or> includesStr s (str ''Action'' @ [fullwidthColon])) = (\<exists>i. markerAt s i)"
  by (auto simp: includesStr_iff markerAt_def)

lemma splitLoop_marker_last:
  "(if \<exists>i. markerAt s i
    then \<exists>i. markerAt s i \<and> (\<forall>j>i. \<not> markerAt s j)
             \<and> last (splitLoop False actionMarkerPattern acc pre s) = drop (i + 7) s
    else last (splitLoop False actionMarkerPattern acc pre s) = rev acc @ s)"
proof (induction "length s" arbitrary: s acc pre rule: less_induct)
  case less
  show ?case
  proof (cases s)
    case Nil
    then show ?thesis by simp
  next
    case (Cons c cs)
    show ?thesis
    proof (cases "markerAt s 0")
      case True
      have len: "length (drop 7 s) < length s"
        using Cons by simp
      have step: "last (splitLoop False actionMarkerPattern acc pre s) =
            last (splitLoop False actionMarkerPattern [] (rev (take 7 s) @ pre) (drop 7 s))"
        using True Cons len by (simp add: matchAt_marker splitLoop_nonempty)
      have early: "\<not> markerAt s j" if "0 < j" "j < 7" for j
        using marker_no_overlap[OF True that] .
      show ?thesis
      proof (cases "\<exists>i. markerAt (drop 7 s) i")
        case False
        then have "last (splitLoop False actionMarkerPattern acc pre s) = drop (0 + 7) s"
          using less[OF len, of "[]" "rev (take 7 s) @ pre"] step by simp
        moreover have "\<not> markerAt s j" if "0 < j" for j
        proof (cases "j < 7")
          case True
          with that early show ?thesis by blast
        next
          case ge: False
          then have "markerAt s j = markerAt (drop 7 s) (j - 7)"
            by (simp add: markerAt_drop)
          with False show ?thesis by blast
        qed
        ultimately show ?thesis
          using True by (auto intro!: exI[of _ 0])
      next
        case ex: True
        with less[OF len, of "[]" "rev (take 7 s) @ pre"] step obtain i where
          i: "markerAt (drop 7 s) i" "\<forall>j>i. \<not> markerAt (drop 7 s) j"
          "last (splitLoop False actionMarkerPattern acc pre s) = drop (i + 7) (drop 7 s)"
          by auto
        have "markerAt s (i + 7)"
          using i(1) by (simp add: markerAt_drop)
        moreover have "\<not> markerAt s j" if "i + 7 < j" for j
        proof -
          from that have "i < j - 7" "j = (j - 7) + 7" by arith+
          with i(2) show ?thesis
            by (metis markerAt_drop)
        qed
        moreover have "last (splitLoop False actionMarkerPattern acc pre s) = drop ((i + 7) + 7) s"
          using i(3) by (simp add: add.commute)
        ultimately show ?thesis
          by (auto intro!: exI[of _ "i + 7"])
      qed
    next
      case no0: False
      have len: "length cs < length s"
        using Cons by simp
      have step: "last (splitLoop False actionMarkerPattern acc pre s) =
            last (splitLoop False actionMarkerPattern (c # acc) (c # pre) cs)"
        using no0 Cons by (simp add: matchAt_marker)
      show ?thesis
      proof (cases "\<exists>i. markerAt cs i")
        case False
        then have "last (splitLoop False actionMarkerPattern acc pre s) = rev acc @ s"
          using less[OF len, of "c # acc" "c # pre"] step Cons by simp
        moreover have "\<not> markerAt s i" for i
          using no0 False Cons by (cases i) auto
        ultimately show ?thesis by simp
      next
        case ex: True
        with less[OF len, of "c # acc" "c # pre"] step obtain i where
          i: "markerAt cs i" "\<forall>j>i. \<not> markerAt cs j"
          "last (splitLoop False actionMarkerPattern acc pre s) = drop (i + 7) cs"
          by auto
        have "markerAt s (Suc i)"
          using i(1) Cons by simp
        moreover have "\<not> markerAt s j" if "Suc i < j" for j
          using that i(2) Cons by (cases j) auto
        moreover have "drop (Suc i + 7) s = drop (i + 7) cs"
          unfolding Cons by (simp only: add_Suc drop_Suc_Cons)
        then have "last (splitLoop False actionMarkerPattern acc pre s) = drop (Suc i + 7) s"
          using i(3) by (simp only:)
        ultimately show ?thesis
          by (auto intro!: exI[of _ "Suc i"])
      qed
    qed
  qed
qed

text \<open>
  Claim C2.  In the bc format, a text that contains neither \<^verbatim>\<open>Action:\<close> nor the marker
  with the full-width colon is the action-string as a whole; otherwise the action-string
  is what follows the last occurrence of a marker: a marker occurs at some position
  \<open>i\<close>, none occurs later, and the action-string is the text from position \<open>i + 7\<close> on.
  The pipeline applies this to the trimmed prediction.
\<close>

theorem bc_action_string:
  "(\<not> includesStr tx (str ''Action:'') \<and> \<not> includesStr tx (str ''Action'' @ [fullwidthColon])
      \<longrightarrow> bcActionStr tx = tx)
   \<and> (includesStr tx (str ''Action:'') \<or> includesStr tx (str ''Action'' @ [fullwidthColon])
      \<longrightarrow> (\<exists>i. markerAt tx i \<and> (\<forall>j>i. \<not> markerAt tx j) \<and> bcActionStr tx = drop (i + 7) tx))
   \<and> actionStrOf BC inp = bcActionStr (trim inp)"
proof (intro conjI impI)
  assume "\<not> includesStr tx (str ''Action:'') \<and> \<not> includesStr tx (str ''Action'' @ [fullwidthColon])"
  then show "bcActionStr tx = tx"
    by (simp add: bcActionStr_def)
next
  assume a: "includesStr tx (str ''Action:'') \<or> includesStr tx (str ''Action'' @ [fullwidthColon])"
  then have ex: "\<exists>i. markerAt tx i"
    by (simp only: includes_marker_iff)
  then have "tx \<noteq> []"
    by auto
  with a have "bcActionStr tx = last (splitLoop False actionMarkerPattern [] [] tx)"
    by (auto simp: bcActionStr_def splitRegex_def)
  with splitLoop_marker_last[of tx "[]" "[]"] ex
  show "\<exists>i. markerAt tx i \<and> (\<forall>j>i. \<not> markerAt tx j) \<and> bcActionStr tx = drop (i + 7) tx"
    by simp
next
  show "actionStrOf BC inp = bcActionStr (trim inp)"
    by (simp add: actionStrOf_def)
qed

theorem bc_action_string_witness:
  "includesStr (str ''Thought: go Action: a() Action: wait()'') (str ''Action:'')
   \<and> (\<exists>i. markerAt (str ''Thought: go Action: a() Action: wait()'') i
          \<and> bcActionStr (str ''Thought: go Action: a() Action: wait()'')
              = drop (i + 7) (str ''Thought: go Action: a() Action: wait()''))
   \<and> bcActionStr (str ''Thought: go Action: a() Action: wait()'') = str '' wait()''
   \<and> bcActionStr (str ''wait()'') = str ''wait()''"
proof -
  have a: "includesStr (str ''Thought: go Action: a() Action: wait()'') (str ''Action:'')"
    by (simp add: str_def startsWith_def)
  have b: "\<not> includesStr (str ''wait()'') (str ''Action:'') \<and>
           \<not> includesStr (str ''wait()'') (str ''Action'' @ [fullwidthColon])"
    by (simp add: str_def startsWith_def)
  have c: "bcActionStr (str ''Thought: go Action: a() Action: wait()'') = str '' wait()''"
    by (simp add: js_eval)
  from bc_action_string[of "str ''Thought: go Action: a() Action: wait()''" "[]"] a
    bc_action_string[of "str ''wait()''" "[]"] b c
  show ?thesis
    by blast
qed

end
